theory Spec2Isabelle
  imports Main "HOL-Library.Sublist" "HOL-Library.Word"
begin

section \<open>Strings and arrays as the TypeScript code uses them\<close>

text \<open>
  A JavaScript string is modelled as a \<^typ>\<open>string\<close>, one \<^typ>\<open>char\<close> per code unit
  (code units below 256). A number that the code obtains from a run of decimal digits is
  an \<^typ>\<open>int\<close>: the value of the digits rounded to the nearest double, ties to even,
  which changes nothing below \<open>2 ^ 53\<close>. A run of digits so long that the code obtains
  \<open>Infinity\<close> (more than 308 digits) is outside the model. \<open>NaN\<close>, which \<open>+undefined\<close>
  yields, is \<open>None\<close>.
\<close>

definition newline :: char where
  "newline = CHR 0x0A"

definition tab :: char where
  "tab = CHR 0x09"

text \<open>\<open>s.split(c)\<close> for a one-character separator: never empty, one more piece than separators.\<close>

fun split_on :: "char \<Rightarrow> string \<Rightarrow> string list" where
  "split_on c [] = [[]]"
| "split_on c (x # xs) =
     (if x = c then [] # split_on c xs
      else (case split_on c xs of [] \<Rightarrow> [[x]] | s # ss \<Rightarrow> (x # s) # ss))"

text \<open>\<open>s.indexOf(p)\<close>: the first index at which \<open>p\<close> occurs in \<open>s\<close>, or \<open>-1\<close>.\<close>

fun indexOf :: "'a list \<Rightarrow> 'a list \<Rightarrow> int" where
  "indexOf [] p = (if p = [] then 0 else - 1)"
| "indexOf (c # cs) p =
     (if prefix p (c # cs) then 0
      else (let r = indexOf cs p in if r < 0 then - 1 else r + 1))"

text \<open>\<open>s.substring(a, b)\<close> and \<open>s.substring(a)\<close> for indices that are not negative.\<close>

definition substring :: "string \<Rightarrow> nat \<Rightarrow> nat \<Rightarrow> string" where
  "substring s a b = take (b - a) (drop a s)"

definition substring_from :: "string \<Rightarrow> nat \<Rightarrow> string" where
  "substring_from s a = drop a s"

text \<open>The unary plus on a string of decimal digits, and on a possibly undefined one.\<close>

definition digit_val :: "char \<Rightarrow> int" where
  "digit_val c = int (of_char c) - 48"

text \<open>The number of binary digits of a number, and the nearest double of an integer.\<close>

function bit_length :: "int \<Rightarrow> nat" where
  "bit_length n = (if n \<le> 0 then 0 else Suc (bit_length (n div 2)))"
  by pat_completeness auto
termination
  by (relation "measure nat") auto

declare bit_length.simps [simp del]

definition round_double :: "int \<Rightarrow> int" where
  "round_double n =
     (let b = bit_length n
      in if b \<le> 53 then n
         else
           (let u = 2 ^ (b - 53); q = n div u; r = n mod u
            in (if u < 2 * r \<or> (2 * r = u \<and> odd q) then q + 1 else q) * u))"

definition digits_to_int :: "string \<Rightarrow> int" where
  "digits_to_int s = round_double (foldl (\<lambda>n c. 10 * n + digit_val c) 0 s)"

definition to_number :: "string option \<Rightarrow> int option" where
  "to_number s = map_option digits_to_int s"

section \<open>Regular expressions with backtracking\<close>

text \<open>
  The regular expressions of the source are matched the way the JavaScript engine matches
  them: alternatives are tried in priority order (greedy quantifiers take the longest
  repetition first) and the first complete match wins. \<open>rmatch r s (i, c)\<close> lists, in that
  order, every way \<open>r\<close> can match \<open>s\<close> from index \<open>i\<close> on: the index after the match and the
  captures, starting from captures \<open>c\<close>. All starred subexpressions of the source are
  character classes, hence \<open>Rep\<close>.
\<close>

type_synonym captures = "nat \<rightharpoonup> string"

datatype re =
    Lit string
  | Cls "char \<Rightarrow> bool"
  | Rep nat "char \<Rightarrow> bool"
  | RepMax nat nat "char \<Rightarrow> bool"
  | Cat re re
  | Alt re re
  | Opt re
  | Grp nat re
  | Bol
  | Eol

fun rmatch :: "re \<Rightarrow> string \<Rightarrow> nat \<times> captures \<Rightarrow> (nat \<times> captures) list" where
  "rmatch (Lit l) s (i, c) =
     (if take (length l) (drop i s) = l then [(i + length l, c)] else [])"
| "rmatch (Cls P) s (i, c) =
     (case drop i s of [] \<Rightarrow> [] | x # _ \<Rightarrow> if P x then [(i + 1, c)] else [])"
| "rmatch (Rep n P) s (i, c) =
     (let k = length (takeWhile P (drop i s))
      in map (\<lambda>j. (i + j, c)) (rev [n ..< k + 1]))"
| "rmatch (RepMax n m P) s (i, c) =
     (let k = min m (length (takeWhile P (drop i s)))
      in map (\<lambda>j. (i + j, c)) (rev [n ..< k + 1]))"
| "rmatch (Cat a b) s st = concat (map (rmatch b s) (rmatch a s st))"
| "rmatch (Alt a b) s st = rmatch a s st @ rmatch b s st"
| "rmatch (Opt a) s st = filter (\<lambda>r. fst r \<noteq> fst st) (rmatch a s st) @ [st]"
| "rmatch (Grp n a) s (i, c) =
     map (\<lambda>(j, c'). (j, c'(n \<mapsto> take (j - i) (drop i s)))) (rmatch a s (i, c))"
| "rmatch Bol s (i, c) = (if i = 0 then [(i, c)] else [])"
| "rmatch Eol s (i, c) = (if i = length s then [(i, c)] else [])"

definition re_seq :: "re list \<Rightarrow> re" where
  "re_seq rs = foldr Cat rs (Lit [])"

text \<open>One attempt at a fixed start index; group 0 is the whole match.\<close>

definition match_at :: "re \<Rightarrow> string \<Rightarrow> nat \<Rightarrow> captures option" where
  "match_at r s i =
     (case rmatch r s (i, Map.empty) of
        [] \<Rightarrow> None
      | (j, c) # _ \<Rightarrow> Some (c(0 \<mapsto> take (j - i) (drop i s))))"

text \<open>\<open>r.exec(s)\<close> without the global flag: the leftmost start index that matches.\<close>

fun exec_from :: "re \<Rightarrow> string \<Rightarrow> nat list \<Rightarrow> captures option" where
  "exec_from r s [] = None"
| "exec_from r s (i # is) =
     (case match_at r s i of Some m \<Rightarrow> Some m | None \<Rightarrow> exec_from r s is)"

definition exec :: "re \<Rightarrow> string \<Rightarrow> captures option" where
  "exec r s = exec_from r s [0 ..< length s + 1]"

text \<open>The character classes of the source's patterns.\<close>

definition is_digit :: "char \<Rightarrow> bool" where
  "is_digit c = (c \<in> set ''0123456789'')"

definition is_alnum :: "char \<Rightarrow> bool" where
  "is_alnum c =
     (c \<in> set ''abcdefghijklmnopqrstuvwxyzABCDEFGHIJKLMNOPQRSTUVWXYZ0123456789'')"

definition is_word :: "char \<Rightarrow> bool" where
  "is_word c = (is_alnum c \<or> c = CHR ''_'')"

definition is_dot :: "char \<Rightarrow> bool" where
  "is_dot c = (c \<noteq> CHR 0x0A \<and> c \<noteq> CHR 0x0D)"

definition is_space :: "char \<Rightarrow> bool" where
  "is_space c =
     (c \<in> set [CHR 0x09, CHR 0x0A, CHR 0x0B, CHR 0x0C, CHR 0x0D, CHR 0x20, CHR 0xA0])"

definition not_colon :: "char \<Rightarrow> bool" where
  "not_colon c = (c \<noteq> CHR '':'')"

section \<open>The platform's path module\<close>

text \<open>
  \<open>path.sep\<close>, \<open>path.isAbsolute\<close> and \<open>path.resolve\<close> belong to the host platform, not to
  this repository: the functions that use them take them as a parameter.
  \<open>posix_path\<close> is the instance of a POSIX host and \<open>win32_path\<close> that of a Windows host,
  where \<open>process.cwd()\<close> is \<open>pcwd\<close>. The Windows instance leaves out UNC roots and the
  working directories that Windows keeps per drive.
\<close>

record path_module =
  sep :: char
  isAbsolute :: "string \<Rightarrow> bool"
  resolve :: "string \<Rightarrow> string \<Rightarrow> string"

fun resolve_join :: "string list \<Rightarrow> string \<Rightarrow> string \<times> bool" where
  "resolve_join [] acc = (acc, False)"
| "resolve_join (p # ps) acc =
     (if p = [] then resolve_join ps acc
      else if hd p = CHR ''/'' then (p @ ''/'' @ acc, True)
      else resolve_join ps (p @ ''/'' @ acc))"

fun normalize_segments :: "bool \<Rightarrow> string list \<Rightarrow> string list \<Rightarrow> string list" where
  "normalize_segments up acc [] = rev acc"
| "normalize_segments up acc (s # ss) =
     (if s = [] \<or> s = ''.'' then normalize_segments up acc ss
      else if s = ''..'' then
        (case acc of
           [] \<Rightarrow> normalize_segments up (if up then [s] else []) ss
         | a # as \<Rightarrow>
             if a = ''..'' then normalize_segments up (s # acc) ss
             else normalize_segments up as ss)
      else normalize_segments up (s # acc) ss)"

fun join_segments :: "string list \<Rightarrow> string" where
  "join_segments [] = []"
| "join_segments [s] = s"
| "join_segments (s # ss) = s @ ''/'' @ join_segments ss"

definition posix_resolve :: "string \<Rightarrow> string \<Rightarrow> string \<Rightarrow> string" where
  "posix_resolve pcwd a b =
     (case resolve_join [b, a, pcwd] [] of
        (p, absolute) \<Rightarrow>
          (let n = join_segments (normalize_segments (\<not> absolute) [] (split_on CHR ''/'' p))
           in if absolute then ''/'' @ n else if n = [] then ''.'' else n))"

definition posix_path :: "string \<Rightarrow> path_module" where
  "posix_path pcwd =
     \<lparr> sep = CHR ''/'',
       isAbsolute = (\<lambda>p. p \<noteq> [] \<and> hd p = CHR ''/''),
       resolve = posix_resolve pcwd \<rparr>"

text \<open>
  On Windows both \<open>/\<close> and the backslash separate segments, \<open>path.sep\<close> is the backslash,
  and a path may start with a drive. \<open>win32_step\<close> is one round of the loop of
  \<open>path.win32.resolve\<close>, which reads its arguments from the right.
\<close>

definition backslash :: char where
  "backslash = CHR 0x5C"

definition isPathSeparator :: "char \<Rightarrow> bool" where
  "isPathSeparator c = (c = CHR ''/'' \<or> c = backslash)"

definition isWindowsDeviceRoot :: "char \<Rightarrow> bool" where
  "isWindowsDeviceRoot c =
     (c \<in> set ''ABCDEFGHIJKLMNOPQRSTUVWXYZabcdefghijklmnopqrstuvwxyz'')"

definition win32_isAbsolute :: "string \<Rightarrow> bool" where
  "win32_isAbsolute p =
     (case p of
        [] \<Rightarrow> False
      | c # rest \<Rightarrow>
          isPathSeparator c \<or>
          (length p > 2 \<and> isWindowsDeviceRoot c \<and> p ! 1 = CHR '':'' \<and> isPathSeparator (p ! 2)))"

definition toLowerCase :: "string \<Rightarrow> string" where
  "toLowerCase s =
     map (\<lambda>c. if c \<in> set ''ABCDEFGHIJKLMNOPQRSTUVWXYZ'' then char_of (of_char c + (32 :: nat)) else c) s"

definition win32_root :: "string \<Rightarrow> string \<times> nat \<times> bool" where
  "win32_root p =
     (case p of
        [] \<Rightarrow> ([], 0, False)
      | [c] \<Rightarrow> if isPathSeparator c then ([], 1, True) else ([], 0, False)
      | c0 # c1 # rest \<Rightarrow>
          if isPathSeparator c0 then ([], 1, True)
          else if isWindowsDeviceRoot c0 \<and> c1 = CHR '':'' then
            (if rest \<noteq> [] \<and> isPathSeparator (hd rest) then ([c0, c1], 3, True)
             else ([c0, c1], 2, False))
          else ([], 0, False))"

record win32_state =
  resolvedDevice :: string
  resolvedTail :: string
  resolvedAbsolute :: bool
  finished :: bool

definition win32_step :: "string \<Rightarrow> win32_state \<Rightarrow> win32_state" where
  "win32_step p st =
     (if finished st \<or> p = [] then st
      else
        (case win32_root p of
           (device, rootEnd, absolute) \<Rightarrow>
             if device \<noteq> [] \<and> resolvedDevice st \<noteq> [] \<and>
                toLowerCase device \<noteq> toLowerCase (resolvedDevice st)
             then st
             else
               (let st1 = (if device \<noteq> [] \<and> resolvedDevice st = []
                           then st\<lparr>resolvedDevice := device\<rparr> else st)
                in if resolvedAbsolute st1
                   then st1\<lparr>finished := resolvedDevice st1 \<noteq> []\<rparr>
                   else st1\<lparr>resolvedTail := drop rootEnd p @ [backslash] @ resolvedTail st1,
                            resolvedAbsolute := absolute,
                            finished := absolute \<and> resolvedDevice st1 \<noteq> []\<rparr>)))"

fun split_where :: "(char \<Rightarrow> bool) \<Rightarrow> string \<Rightarrow> string list" where
  "split_where P [] = [[]]"
| "split_where P (x # xs) =
     (if P x then [] # split_where P xs
      else (case split_where P xs of [] \<Rightarrow> [[x]] | s # ss \<Rightarrow> (x # s) # ss))"

fun join_backslash :: "string list \<Rightarrow> string" where
  "join_backslash [] = []"
| "join_backslash [s] = s"
| "join_backslash (s # ss) = s @ [backslash] @ join_backslash ss"

definition win32_resolve :: "string \<Rightarrow> string \<Rightarrow> string \<Rightarrow> string" where
  "win32_resolve pcwd a b =
     (let st0 = \<lparr>resolvedDevice = [], resolvedTail = [], resolvedAbsolute = False,
                 finished = False\<rparr>;
          st2 = win32_step a (win32_step b st0);
          cwd = (if resolvedDevice st2 \<noteq> [] \<and>
                    toLowerCase (take 2 pcwd) \<noteq> toLowerCase (resolvedDevice st2) \<and>
                    drop 2 (take 3 pcwd) = [backslash]
                 then resolvedDevice st2 @ [backslash] else pcwd);
          st3 = win32_step cwd st2;
          tail = join_backslash
                   (normalize_segments (\<not> resolvedAbsolute st3) []
                      (split_where isPathSeparator (resolvedTail st3)))
      in if resolvedAbsolute st3 then resolvedDevice st3 @ [backslash] @ tail
         else if resolvedDevice st3 @ tail = [] then ''.'' else resolvedDevice st3 @ tail)"

definition win32_path :: "string \<Rightarrow> path_module" where
  "win32_path pcwd =
     \<lparr> sep = backslash, isAbsolute = win32_isAbsolute, resolve = win32_resolve pcwd \<rparr>"

section \<open>runTool: parsing the output of a tool\<close>

record ICheckResult =
  "file" :: string
  line :: int
  col :: "int option"
  msg :: string
  severity :: string

text \<open>What \<open>cp.execFile\<close> hands to its callback.\<close>

datatype err_code = CodeString string | CodeNumber int | NoCode

record exec_result =
  err :: "err_code option"
  stdout :: string
  stderr :: string

text \<open>
  \<open>/^([^:]*: )?((.:)?[^:]*):(\d+)(:(\d+)?)?:(?:\w+:)? (.*)$/\<close>
\<close>

definition line_re :: re where
  "line_re = re_seq
     [Bol,
      Opt (Grp 1 (re_seq [Rep 0 not_colon, Lit '': ''])),
      Grp 2 (re_seq [Opt (Grp 3 (re_seq [Cls is_dot, Lit '':''])), Rep 0 not_colon]),
      Lit '':'',
      Grp 4 (Rep 1 is_digit),
      Opt (Grp 5 (re_seq [Lit '':'', Opt (Grp 6 (Rep 1 is_digit))])),
      Lit '':'',
      Opt (re_seq [Rep 1 is_word, Lit '':'']),
      Lit '' '',
      Grp 7 (Rep 0 is_dot),
      Eol]"

text \<open>The three variables the loop over the lines updates.\<close>

record loop_state =
  ret :: "ICheckResult list"
  unexpectedOutput :: bool
  atLeastSingleMatch :: bool

text \<open>The vendor test of the loop body.\<close>

definition in_vendor :: "path_module \<Rightarrow> string \<Rightarrow> bool" where
  "in_vendor pm f =
     (\<not> isAbsolute pm f \<and>
      (prefix (''vendor'' @ [sep pm]) f \<or> indexOf f ([sep pm] @ ''vendor'' @ [sep pm]) > - 1))"

text \<open>
  One iteration of \<open>for (const l of lines)\<close>. The writes to the output channel are a log
  for the user and are left out.
\<close>

definition runTool_line ::
  "path_module \<Rightarrow> string \<Rightarrow> string \<Rightarrow> bool \<Rightarrow> bool \<Rightarrow> string \<Rightarrow> loop_state \<Rightarrow> string \<Rightarrow> loop_state"
where
  "runTool_line pm cwd sev useStdErr printUnexpectedOutput stderr_text st l =
     (if l \<noteq> [] \<and> hd l = tab \<and> length (ret st) > 0 then
        st\<lparr>ret := butlast (ret st) @
                  [(last (ret st))\<lparr>msg := msg (last (ret st)) @ [newline] @ l\<rparr>]\<rparr>
      else
        (case exec line_re l of
           None \<Rightarrow>
             if printUnexpectedOutput \<and> useStdErr \<and> stderr_text \<noteq> []
             then st\<lparr>unexpectedOutput := True\<rparr> else st
         | Some m \<Rightarrow>
             (let st' = st\<lparr>atLeastSingleMatch := True\<rparr>;
                  f = the (m 2);
                  ln = digits_to_int (the (m 4));
                  cl = to_number (m 6);
                  message = the (m 7)
              in if in_vendor pm f then st'
                 else st'\<lparr>ret := ret st' @
                        [\<lparr>file = resolve pm cwd f, line = ln, col = cl,
                          msg = message, severity = sev\<rparr>]\<rparr>)))"

definition runTool_loop ::
  "path_module \<Rightarrow> string \<Rightarrow> string \<Rightarrow> bool \<Rightarrow> bool \<Rightarrow> string \<Rightarrow> string list \<Rightarrow> loop_state"
where
  "runTool_loop pm cwd sev useStdErr printUnexpectedOutput stderr_text ls =
     foldl (runTool_line pm cwd sev useStdErr printUnexpectedOutput stderr_text)
       \<lparr>ret = [], unexpectedOutput = False, atLeastSingleMatch = False\<rparr> ls"

text \<open>
  \<open>runTool\<close>, from the moment the tool has run. \<open>go_path\<close> is what \<open>getBinPath('go')\<close>
  returns, \<open>activeFile\<close> the file name of \<open>vscode.window.activeTextEditor\<close>, when there is
  one, and \<open>r\<close> the arguments of the callback of \<open>cp.execFile\<close>. \<open>Inl\<close> is the rejected
  promise.
\<close>

definition runTool ::
  "path_module \<Rightarrow> string \<Rightarrow> string \<Rightarrow> bool \<Rightarrow> string \<Rightarrow> string \<Rightarrow> bool \<Rightarrow>
   string option \<Rightarrow> exec_result \<Rightarrow> string + ICheckResult list"
where
  "runTool pm cwd sev useStdErr toolName go_path printUnexpectedOutput activeFile r =
     (if toolName = [] \<and> go_path = [] then
        Inl ''Cannot find \"go\" binary. Update PATH or GOROOT appropriately''
      else if err r = Some (CodeString ''ENOENT'') then Inr []
      else if err r \<noteq> None \<and> stderr r \<noteq> [] \<and> \<not> useStdErr then Inr []
      else
        (let ls = split_on newline (if useStdErr then stderr r else stdout r);
             st = runTool_loop pm cwd sev useStdErr printUnexpectedOutput (stderr r) ls
         in if \<not> atLeastSingleMatch st \<and> unexpectedOutput st \<and> activeFile \<noteq> None \<and>
               err r \<noteq> None
            then Inr (ret st @
                   [\<lparr>file = the activeFile, line = 1, col = Some 1,
                     msg = stderr r, severity = ''error''\<rparr>])
            else Inr (ret st)))"

section \<open>GoVersion\<close>

text \<open>
  A \<open>semver.SemVer\<close> as \<open>semver.coerce\<close> returns it: three numbers, no pre-release tag.
  The \<open>semver\<close> package is not part of this repository; \<open>GoVersion\<close> takes
  \<open>semver.coerce\<close> as the parameter \<open>coerce\<close>. \<open>semver_coerce\<close> below follows the package
  and serves at concrete inputs.
\<close>

record SemVer =
  major :: nat
  minor :: nat
  patch :: nat

definition semver_lt :: "SemVer \<Rightarrow> SemVer \<Rightarrow> bool" where
  "semver_lt a b =
     (major a < major b \<or>
      (major a = major b \<and> (minor a < minor b \<or> (minor a = minor b \<and> patch a < patch b))))"

definition semver_gt :: "SemVer \<Rightarrow> SemVer \<Rightarrow> bool" where
  "semver_gt a b = semver_lt b a"

text \<open>
  \<open>(^|[^\d])(\d{1,16})(?:\.(\d{1,16}))?(?:\.(\d{1,16}))?(?:$|[^\d])\<close>, then the three
  numbers are parsed strictly: no leading zero, nothing above \<open>Number.MAX_SAFE_INTEGER\<close>.
\<close>

definition coerce_re :: re where
  "coerce_re = re_seq
     [Grp 1 (Alt Bol (Cls (\<lambda>c. \<not> is_digit c))),
      Grp 2 (RepMax 1 16 is_digit),
      Opt (re_seq [Lit ''.'', Grp 3 (RepMax 1 16 is_digit)]),
      Opt (re_seq [Lit ''.'', Grp 4 (RepMax 1 16 is_digit)]),
      Alt Eol (Cls (\<lambda>c. \<not> is_digit c))]"

definition numeric_identifier :: "string \<Rightarrow> nat option" where
  "numeric_identifier s =
     (if s = [] \<or> (length s > 1 \<and> hd s = CHR ''0'') \<or> digits_to_int s > 9007199254740991
      then None else Some (nat (digits_to_int s)))"

definition semver_coerce :: "string \<Rightarrow> SemVer option" where
  "semver_coerce version =
     (case exec coerce_re version of
        None \<Rightarrow> None
      | Some m \<Rightarrow>
          (case (numeric_identifier (the (m 2)),
                 numeric_identifier (case m 3 of None \<Rightarrow> ''0'' | Some x \<Rightarrow> x),
                 numeric_identifier (case m 4 of None \<Rightarrow> ''0'' | Some x \<Rightarrow> x)) of
             (Some a, Some b, Some c) \<Rightarrow> Some \<lparr>major = a, minor = b, patch = c\<rparr>
           | _ \<Rightarrow> None))"

record GoVersion =
  binaryPath :: string
  sv :: "SemVer option"
  isDevel :: bool
  commit :: "string option"

text \<open>\<open>/go version go(\d.\d+).*/\<close> and \<open>/go version devel \+(.[a-zA-Z0-9]+).*/\<close>\<close>

definition release_re :: re where
  "release_re = re_seq
     [Lit ''go version go'',
      Grp 1 (re_seq [Cls is_digit, Cls is_dot, Rep 1 is_digit]),
      Rep 0 is_dot]"

definition devel_re :: re where
  "devel_re = re_seq
     [Lit ''go version devel +'',
      Grp 1 (re_seq [Cls is_dot, Rep 1 is_alnum]),
      Rep 0 is_dot]"

text \<open>The constructor. An absent \<open>isDevel\<close> is \<open>False\<close>, an absent \<open>sv\<close> or \<open>commit\<close> is \<open>None\<close>.\<close>

definition GoVersion_new :: "(string \<Rightarrow> SemVer option) \<Rightarrow> string \<Rightarrow> string \<Rightarrow> GoVersion" where
  "GoVersion_new coerce path version =
     (let matchesRelease = exec release_re version;
          matchesDevel = exec devel_re version
      in case matchesRelease of
           Some m \<Rightarrow>
             \<lparr>binaryPath = path, sv = coerce (the (m 0)), isDevel = False, commit = None\<rparr>
         | None \<Rightarrow>
             (case matchesDevel of
                Some m \<Rightarrow> \<lparr>binaryPath = path, sv = None, isDevel = True, commit = m 0\<rparr>
              | None \<Rightarrow> \<lparr>binaryPath = path, sv = None, isDevel = False, commit = None\<rparr>))"

definition isValid :: "GoVersion \<Rightarrow> bool" where
  "isValid g = (sv g \<noteq> None \<or> isDevel g)"

fun digits_of :: "nat \<Rightarrow> nat \<Rightarrow> string" where
  "digits_of 0 n = []"
| "digits_of (Suc fuel) n =
     (if n < 10 then [char_of (48 + n)]
      else digits_of fuel (n div 10) @ [char_of (48 + n mod 10)])"

definition show_nat :: "nat \<Rightarrow> string" where
  "show_nat n = digits_of (Suc n) n"

definition semver_format :: "SemVer \<Rightarrow> string" where
  "semver_format v = show_nat (major v) @ ''.'' @ show_nat (minor v) @ ''.'' @ show_nat (patch v)"

definition format :: "GoVersion \<Rightarrow> string" where
  "format g =
     (case sv g of
        Some v \<Rightarrow> semver_format v
      | None \<Rightarrow> ''devel +'' @ (case commit g of None \<Rightarrow> ''undefined'' | Some c \<Rightarrow> c))"

definition lt :: "(string \<Rightarrow> SemVer option) \<Rightarrow> GoVersion \<Rightarrow> string \<Rightarrow> bool" where
  "lt coerce g version =
     (if isDevel g \<or> sv g = None then False
      else (case coerce version of
              None \<Rightarrow> False
            | Some v \<Rightarrow> semver_lt (the (sv g)) v))"

definition gt :: "(string \<Rightarrow> SemVer option) \<Rightarrow> GoVersion \<Rightarrow> string \<Rightarrow> bool" where
  "gt coerce g version =
     (if isDevel g \<or> sv g = None then True
      else (case coerce version of
              None \<Rightarrow> False
            | Some v \<Rightarrow> semver_gt (the (sv g)) v))"

section \<open>LineBuffer\<close>

text \<open>
  A listener is a callback: it acts on the world outside the buffer, of type \<open>'w\<close>, and
  does not touch the buffer it listens to. \<open>null\<close> is \<open>None\<close>.
\<close>

record 'w LineBuffer =
  buf :: string
  lineListeners :: "(string \<Rightarrow> 'w \<Rightarrow> 'w) list"
  lastListeners :: "(string option \<Rightarrow> 'w \<Rightarrow> 'w) list"

definition LineBuffer_new :: "'w LineBuffer" where
  "LineBuffer_new = \<lparr>buf = [], lineListeners = [], lastListeners = []\<rparr>"

definition onLine :: "(string \<Rightarrow> 'w \<Rightarrow> 'w) \<Rightarrow> 'w LineBuffer \<Rightarrow> 'w LineBuffer" where
  "onLine listener lb = lb\<lparr>lineListeners := lineListeners lb @ [listener]\<rparr>"

definition onDone :: "(string option \<Rightarrow> 'w \<Rightarrow> 'w) \<Rightarrow> 'w LineBuffer \<Rightarrow> 'w LineBuffer" where
  "onDone listener lb = lb\<lparr>lastListeners := lastListeners lb @ [listener]\<rparr>"

definition fireLine :: "'w LineBuffer \<Rightarrow> string \<Rightarrow> 'w \<Rightarrow> 'w" where
  "fireLine lb l w = foldl (\<lambda>w' listener. listener l w') w (lineListeners lb)"

definition fireDone :: "'w LineBuffer \<Rightarrow> string option \<Rightarrow> 'w \<Rightarrow> 'w" where
  "fireDone lb l w = foldl (\<lambda>w' listener. listener l w') w (lastListeners lb)"

text \<open>The \<open>do ... while (true)\<close> of \<open>append\<close>: it ends since every round shortens \<open>buf\<close>.\<close>

function append_loop :: "'w LineBuffer \<Rightarrow> 'w \<Rightarrow> 'w LineBuffer \<times> 'w" where
  "append_loop lb w =
     (let idx = indexOf (buf lb) [newline]
      in if idx = - 1 then (lb, w)
         else append_loop (lb\<lparr>buf := substring_from (buf lb) (nat idx + 1)\<rparr>)
                (fireLine lb (substring (buf lb) 0 (nat idx)) w))"
  by pat_completeness auto
termination
proof (relation "measure (\<lambda>(lb, w). length (buf lb))")
  show "wf (measure (\<lambda>(lb :: 'w LineBuffer, w :: 'w). length (buf lb)))"
    by simp
next
  fix lb :: "'w LineBuffer" and w :: 'w and idx :: int
  assume idx: "idx = indexOf (buf lb) [newline]" and found: "idx \<noteq> - 1"
  have bound: "indexOf s p \<noteq> - 1 \<Longrightarrow> p \<noteq> [] \<Longrightarrow> 0 \<le> indexOf s p \<and> indexOf s p < int (length s)"
    for s p :: string
    by (induction s) (auto simp: Let_def split: if_splits)
  from bound [of "buf lb" "[newline]"] idx found
  have "0 \<le> idx \<and> idx < int (length (buf lb))" by simp
  then show "((lb\<lparr>buf := substring_from (buf lb) (nat idx + 1)\<rparr>,
               fireLine lb (substring (buf lb) 0 (nat idx)) w), (lb, w))
             \<in> measure (\<lambda>(lb, w). length (buf lb))"
    by (simp add: substring_from_def) arith
qed

declare append_loop.simps [simp del]

definition append :: "string \<Rightarrow> 'w LineBuffer \<times> 'w \<Rightarrow> 'w LineBuffer \<times> 'w" where
  "append chunk s = (case s of (lb, w) \<Rightarrow> append_loop (lb\<lparr>buf := buf lb @ chunk\<rparr>) w)"

definition done_lb :: "'w LineBuffer \<times> 'w \<Rightarrow> 'w LineBuffer \<times> 'w" where
  "done_lb s =
     (case s of (lb, w) \<Rightarrow> (lb, fireDone lb (if buf lb \<noteq> [] then Some (buf lb) else None) w))"

section \<open>handleDiagnosticErrors\<close>

text \<open>
  The editor's API is modelled as far as this function uses it. A position with a
  negative line or character is rejected; a range orders its two ends; \<open>lineAt\<close> rejects
  a line the document does not have; \<open>getText\<close> on a range that ends past the end of its
  line returns the line. A collection maps the string of a URI to its diagnostics.
  \<open>uri_file\<close> is \<open>vscode.Uri.file(f).toString()\<close>, a parameter, and parsing that string
  back gives the same URI.
\<close>

datatype exn = IllegalArgument | IllegalLine | TypeError

datatype DiagnosticSeverity = SeverityError | SeverityWarning

record Range =
  start_line :: int
  start_character :: int
  end_line :: int
  end_character :: int

record Diagnostic =
  range_d :: Range
  message :: string
  severity_d :: DiagnosticSeverity
  source :: string

record TextDocument =
  uri :: string
  text_lines :: "string list"

definition Range_new :: "int \<Rightarrow> int \<Rightarrow> int \<Rightarrow> int \<Rightarrow> exn + Range" where
  "Range_new sl sc el ec =
     (if sl < 0 \<or> sc < 0 \<or> el < 0 \<or> ec < 0 then Inl IllegalArgument
      else if sl < el \<or> (sl = el \<and> sc < ec)
      then Inr \<lparr>start_line = sl, start_character = sc, end_line = el, end_character = ec\<rparr>
      else Inr \<lparr>start_line = el, start_character = ec, end_line = sl, end_character = sc\<rparr>)"

definition lineAt :: "TextDocument \<Rightarrow> int \<Rightarrow> exn + string" where
  "lineAt d n =
     (if n < 0 \<or> n \<ge> int (length (text_lines d)) then Inl IllegalLine
      else Inr (text_lines d ! nat n))"

definition mapSeverityToVSCodeSeverity :: "string \<Rightarrow> DiagnosticSeverity" where
  "mapSeverityToVSCodeSeverity sev =
     (if sev = ''error'' then SeverityError
      else if sev = ''warning'' then SeverityWarning
      else SeverityError)"

text \<open>\<open>/^(\s*).*(\s*)$/\<close>\<close>

definition blank_re :: re where
  "blank_re = re_seq [Bol, Grp 1 (Rep 0 is_space), Rep 0 is_dot, Grp 2 (Rep 0 is_space), Eol]"

text \<open>The start and end column of the range of one error.\<close>

definition columns :: "(string \<Rightarrow> string) \<Rightarrow> TextDocument option \<Rightarrow> ICheckResult \<Rightarrow> exn + int \<times> int" where
  "columns uri_file document e =
     (case document of
        None \<Rightarrow> Inr (0, 1)
      | Some d \<Rightarrow>
          if uri d \<noteq> uri_file (file e) then Inr (0, 1)
          else
            (case lineAt d (line e - 1) of
               Inl x \<Rightarrow> Inl x
             | Inr t \<Rightarrow>
                 (case exec blank_re t of
                    None \<Rightarrow> Inl TypeError
                  | Some m \<Rightarrow>
                      Inr (if col e = None \<or> col e = Some 0
                           then int (length (the (m 1))) else the (col e) - 1,
                           int (length t) - int (length (the (m 2)))))))"

text \<open>The body of \<open>errors.forEach\<close> up to the new diagnostic.\<close>

definition to_diagnostic ::
  "(string \<Rightarrow> string) \<Rightarrow> TextDocument option \<Rightarrow> string \<Rightarrow> ICheckResult \<Rightarrow> exn + Diagnostic"
where
  "to_diagnostic uri_file document collection_name e =
     (case columns uri_file document e of
        Inl x \<Rightarrow> Inl x
      | Inr (startColumn, endColumn) \<Rightarrow>
          (case Range_new (line e - 1) startColumn (line e - 1) endColumn of
             Inl x \<Rightarrow> Inl x
           | Inr r \<Rightarrow>
               Inr \<lparr>range_d = r, message = msg e,
                    severity_d = mapSeverityToVSCodeSeverity (severity e),
                    source = collection_name\<rparr>))"

text \<open>A JavaScript \<open>Map\<close> keeps its keys in the order of their first insertion.\<close>

fun map_set :: "'k \<Rightarrow> 'v \<Rightarrow> ('k \<times> 'v) list \<Rightarrow> ('k \<times> 'v) list" where
  "map_set k v [] = [(k, v)]"
| "map_set k v (p # ps) = (if fst p = k then (k, v) # ps else p # map_set k v ps)"

fun diagnosticMap_of ::
  "(string \<Rightarrow> string) \<Rightarrow> TextDocument option \<Rightarrow> string \<Rightarrow> ICheckResult list \<Rightarrow>
   (string \<times> Diagnostic list) list \<Rightarrow> exn + (string \<times> Diagnostic list) list"
where
  "diagnosticMap_of uri_file document nm [] dm = Inr dm"
| "diagnosticMap_of uri_file document nm (e # es) dm =
     (case to_diagnostic uri_file document nm e of
        Inl x \<Rightarrow> Inl x
      | Inr d \<Rightarrow>
          (let canonicalFile = uri_file (file e);
               diagnostics = (case map_of dm canonicalFile of None \<Rightarrow> [] | Some ds \<Rightarrow> ds)
           in diagnosticMap_of uri_file document nm es
                (map_set canonicalFile (diagnostics @ [d]) dm)))"

definition deDupeDiagnostics :: "Diagnostic list \<Rightarrow> Diagnostic list \<Rightarrow> Diagnostic list" where
  "deDupeDiagnostics buildDiagnostics otherDiagnostics =
     (let buildDiagnosticsLines = map (\<lambda>x. start_line (range_d x)) buildDiagnostics
      in filter (\<lambda>x. indexOf buildDiagnosticsLines [start_line (range_d x)] = - 1)
           otherDiagnostics)"

text \<open>The three collections of \<open>goMain\<close> and the one the caller passes.\<close>

record DiagnosticCollection =
  name :: string
  entries :: "string \<rightharpoonup> Diagnostic list"

record stores =
  buildDiagnosticCollection :: DiagnosticCollection
  lintDiagnosticCollection :: DiagnosticCollection
  vetDiagnosticCollection :: DiagnosticCollection

datatype category = Build | Lint | Vet

definition collection :: "category \<Rightarrow> stores \<Rightarrow> DiagnosticCollection" where
  "collection c st =
     (case c of
        Build \<Rightarrow> buildDiagnosticCollection st
      | Lint \<Rightarrow> lintDiagnosticCollection st
      | Vet \<Rightarrow> vetDiagnosticCollection st)"

definition collection_update ::
  "category \<Rightarrow> (DiagnosticCollection \<Rightarrow> DiagnosticCollection) \<Rightarrow> stores \<Rightarrow> stores" where
  "collection_update c f st =
     (case c of
        Build \<Rightarrow> st\<lparr>buildDiagnosticCollection := f (buildDiagnosticCollection st)\<rparr>
      | Lint \<Rightarrow> st\<lparr>lintDiagnosticCollection := f (lintDiagnosticCollection st)\<rparr>
      | Vet \<Rightarrow> st\<lparr>vetDiagnosticCollection := f (vetDiagnosticCollection st)\<rparr>)"

definition clear :: "DiagnosticCollection \<Rightarrow> DiagnosticCollection" where
  "clear c = c\<lparr>entries := Map.empty\<rparr>"

definition has :: "DiagnosticCollection \<Rightarrow> string \<Rightarrow> bool" where
  "has c u = (entries c u \<noteq> None)"

definition get :: "DiagnosticCollection \<Rightarrow> string \<Rightarrow> Diagnostic list" where
  "get c u = (case entries c u of None \<Rightarrow> [] | Some ds \<Rightarrow> ds)"

definition set_entry :: "string \<Rightarrow> Diagnostic list \<Rightarrow> DiagnosticCollection \<Rightarrow> DiagnosticCollection" where
  "set_entry u ds c = c\<lparr>entries := (entries c)(u \<mapsto> ds)\<rparr>"

text \<open>The body of \<open>diagnosticMap.forEach\<close>.\<close>

definition merge_file :: "category \<Rightarrow> stores \<Rightarrow> string \<times> Diagnostic list \<Rightarrow> stores" where
  "merge_file c st kv =
     (case kv of (fileUri, newDiagnostics) \<Rightarrow>
        if c = Build then
          (let st1 = (if has (lintDiagnosticCollection st) fileUri
                      then collection_update Lint
                             (set_entry fileUri
                                (deDupeDiagnostics newDiagnostics
                                   (get (lintDiagnosticCollection st) fileUri))) st
                      else st);
               st2 = (if has (vetDiagnosticCollection st1) fileUri
                      then collection_update Vet
                             (set_entry fileUri
                                (deDupeDiagnostics newDiagnostics
                                   (get (vetDiagnosticCollection st1) fileUri))) st1
                      else st1)
           in collection_update c (set_entry fileUri newDiagnostics) st2)
        else if has (buildDiagnosticCollection st) fileUri then
          collection_update c
            (set_entry fileUri
               (deDupeDiagnostics (get (buildDiagnosticCollection st) fileUri) newDiagnostics)) st
        else collection_update c (set_entry fileUri newDiagnostics) st)"

text \<open>
  The function returns the stores as it leaves them, with the exception when one
  escapes from the first loop: the collection is cleared by then.
\<close>

definition handleDiagnosticErrors ::
  "(string \<Rightarrow> string) \<Rightarrow> TextDocument option \<Rightarrow> ICheckResult list \<Rightarrow> category \<Rightarrow> stores \<Rightarrow>
   exn option \<times> stores"
where
  "handleDiagnosticErrors uri_file document errors c st =
     (let st0 = collection_update c clear st
      in case diagnosticMap_of uri_file document (name (collection c st0)) errors [] of
           Inl x \<Rightarrow> (Some x, st0)
         | Inr diagnosticMap \<Rightarrow> (None, foldl (merge_file c) st0 diagnosticMap))"

section \<open>makeMemoizedByteOffsetConverter\<close>

text \<open>
  \<open>buffer.toString('utf8', start, end).length\<close>: the number of UTF-16 code units of the
  text that the bytes from \<open>start\<close> up to \<open>end\<close> decode to. The decoder reads a lead byte,
  then the continuation bytes it asks for, each within the bounds the lead byte sets; a
  byte outside them ends the sequence with one replacement character and is read again
  as a lead byte. A sequence of four bytes gives two code units, any other one.
\<close>

type_synonym byte = "8 word"

type_synonym pending = "nat \<times> byte \<times> byte \<times> nat"

definition utf8_lead :: "byte \<Rightarrow> pending option \<times> nat" where
  "utf8_lead b =
     (if b \<le> 0x7F then (None, 1)
      else if 0xC2 \<le> b \<and> b \<le> 0xDF then (Some (1, 0x80, 0xBF, 1), 0)
      else if 0xE0 \<le> b \<and> b \<le> 0xEF then
        (Some (2, if b = 0xE0 then 0xA0 else 0x80, if b = 0xED then 0x9F else 0xBF, 1), 0)
      else if 0xF0 \<le> b \<and> b \<le> 0xF4 then
        (Some (3, if b = 0xF0 then 0x90 else 0x80, if b = 0xF4 then 0x8F else 0xBF, 2), 0)
      else (None, 1))"

fun utf16_length_from :: "pending option \<Rightarrow> byte list \<Rightarrow> nat" where
  "utf16_length_from None [] = 0"
| "utf16_length_from (Some p) [] = 1"
| "utf16_length_from None (b # bs) =
     (case utf8_lead b of (st, n) \<Rightarrow> n + utf16_length_from st bs)"
| "utf16_length_from (Some (needed, lo, hi, units)) (b # bs) =
     (if lo \<le> b \<and> b \<le> hi then
        (if needed = 1 then units + utf16_length_from None bs
         else utf16_length_from (Some (needed - 1, 0x80, 0xBF, units)) bs)
      else 1 + (case utf8_lead b of (st, n) \<Rightarrow> n + utf16_length_from st bs))"

definition toString_length :: "byte list \<Rightarrow> int \<Rightarrow> int \<Rightarrow> nat" where
  "toString_length buffer start end =
     (let len = int (length buffer)
      in if 0 < start \<and> len \<le> start then 0
         else
           (let s = (if start \<le> 0 then 0 else start);
                e = (if len < end then len else end)
            in if e \<le> s then 0
               else utf16_length_from None (take (nat e - nat s) (drop (nat s) buffer))))"

text \<open>
  Modelled from the spec: \<open>NearestNeighborDict\<close> and \<open>Node\<close> of \<open>avlTree\<close>, which is not
  among the sources. The dictionary holds samples \<open>(byteOffset, charOffset)\<close>, is seeded
  with one sample, returns for a query the sample nearest by absolute byte distance, and
  takes new samples. Which of two samples at the same distance it returns is not said;
  here it is the older one.
\<close>

type_synonym sample = "int \<times> int"

type_synonym NearestNeighborDict = "sample \<times> sample list"

definition NearestNeighborDict_new :: "sample \<Rightarrow> NearestNeighborDict" where
  "NearestNeighborDict_new d = (d, [])"

fun nearest_of :: "int \<Rightarrow> sample \<Rightarrow> sample list \<Rightarrow> sample" where
  "nearest_of q best [] = best"
| "nearest_of q best (s # ss) =
     nearest_of q (if \<bar>q - fst s\<bar> < \<bar>q - fst best\<bar> then s else best) ss"

definition getNearest :: "NearestNeighborDict \<Rightarrow> int \<Rightarrow> sample" where
  "getNearest memo q = nearest_of q (fst memo) (snd memo)"

definition insert_sample :: "NearestNeighborDict \<Rightarrow> int \<Rightarrow> int \<Rightarrow> NearestNeighborDict" where
  "insert_sample memo k v = (fst memo, snd memo @ [(k, v)])"

text \<open>The closure that \<open>makeMemoizedByteOffsetConverter\<close> returns, with its \<open>memo\<close>.\<close>

definition makeMemoizedByteOffsetConverter :: NearestNeighborDict where
  "makeMemoizedByteOffsetConverter = NearestNeighborDict_new (0, 0)"

definition charOffsetFor :: "byte list \<Rightarrow> NearestNeighborDict \<Rightarrow> int \<Rightarrow> int \<times> NearestNeighborDict" where
  "charOffsetFor buffer memo byteOffset =
     (let nearest = getNearest memo byteOffset;
          byteDelta = byteOffset - fst nearest
      in if byteDelta = 0 then (snd nearest, memo)
         else
           (let charDelta =
                  (if byteDelta > 0
                   then int (toString_length buffer (fst nearest) byteOffset)
                   else - int (toString_length buffer byteOffset (fst nearest)))
            in (snd nearest + charDelta,
                insert_sample memo byteOffset (snd nearest + charDelta))))"

text \<open>A sequence of queries against one converter: the values returned, in order.\<close>

fun queries :: "byte list \<Rightarrow> NearestNeighborDict \<Rightarrow> int list \<Rightarrow> int list" where
  "queries buffer memo [] = []"
| "queries buffer memo (q # qs) =
     (case charOffsetFor buffer memo q of (r, memo') \<Rightarrow> r # queries buffer memo' qs)"

section \<open>Notions of the specification\<close>

text \<open>
  Well-formed UTF-8: the byte sequences of one character (the Unicode standard's table
  of well-formed sequences); a text is a list of characters, its buffer their
  concatenation, and its character boundaries the byte offsets where a character starts
  or the text ends.
\<close>

definition continuation :: "byte \<Rightarrow> bool" where
  "continuation b = (0x80 \<le> b \<and> b \<le> 0xBF)"

definition utf8_char :: "byte list \<Rightarrow> bool" where
  "utf8_char ch =
     (case ch of
        [a] \<Rightarrow> a \<le> 0x7F
      | [a, b] \<Rightarrow> 0xC2 \<le> a \<and> a \<le> 0xDF \<and> continuation b
      | [a, b, c] \<Rightarrow>
          0xE0 \<le> a \<and> a \<le> 0xEF \<and>
          (if a = 0xE0 then 0xA0 else 0x80) \<le> b \<and> b \<le> (if a = 0xED then 0x9F else 0xBF) \<and>
          continuation c
      | [a, b, c, d] \<Rightarrow>
          0xF0 \<le> a \<and> a \<le> 0xF4 \<and>
          (if a = 0xF0 then 0x90 else 0x80) \<le> b \<and> b \<le> (if a = 0xF4 then 0x8F else 0xBF) \<and>
          continuation c \<and> continuation d
      | _ \<Rightarrow> False)"

definition boundary :: "byte list list \<Rightarrow> int \<Rightarrow> bool" where
  "boundary chars b =
     (b \<in> set (map (\<lambda>k. int (length (concat (take k chars)))) [0 ..< length chars + 1]))"

text \<open>
  A path has a segment named \<open>vendor\<close> when one of the pieces between its separators is
  \<open>vendor\<close>; it has a directory named \<open>vendor\<close> when such a piece comes before the last
  separator.
\<close>

definition has_vendor_segment :: "char \<Rightarrow> string \<Rightarrow> bool" where
  "has_vendor_segment c f = (''vendor'' \<in> set (split_on c f))"

definition has_vendor_directory :: "char \<Rightarrow> string \<Rightarrow> bool" where
  "has_vendor_directory c f = (''vendor'' \<in> set (butlast (split_on c f)))"

text \<open>
  The new diagnostic set of file \<open>f\<close> in a run: the diagnostics of the errors reported
  for \<open>f\<close>, in their order; and the lines of a diagnostic set.
\<close>

definition new_diagnostics ::
  "(string \<Rightarrow> string) \<Rightarrow> TextDocument option \<Rightarrow> string \<Rightarrow> ICheckResult list \<Rightarrow> string \<Rightarrow>
   Diagnostic list"
where
  "new_diagnostics uri_file document nm errors f =
     concat (map (\<lambda>e. case to_diagnostic uri_file document nm e of
                         Inl x \<Rightarrow> [] | Inr d \<Rightarrow> [d])
               (filter (\<lambda>e. uri_file (file e) = f) errors))"

definition lines_of :: "Diagnostic list \<Rightarrow> int set" where
  "lines_of ds = (\<lambda>d. start_line (range_d d)) ` set ds"

definition mentioned :: "(string \<Rightarrow> string) \<Rightarrow> ICheckResult list \<Rightarrow> string set" where
  "mentioned uri_file errors = (\<lambda>e. uri_file (file e)) ` set errors"

text \<open>
  A character of a text takes two UTF-16 code units when its UTF-8 form has four bytes,
  one otherwise. The \<open>k\<close>-th boundary of a text lies at \<open>byte_offset chars k\<close> bytes and at
  \<open>char_offset chars k\<close> code units. A sample is exact when it pairs the two offsets of one
  boundary.
\<close>

definition units_of :: "byte list \<Rightarrow> nat" where
  "units_of ch = (if length ch = 4 then 2 else 1)"

definition byte_offset :: "byte list list \<Rightarrow> nat \<Rightarrow> nat" where
  "byte_offset chars k = length (concat (take k chars))"

definition char_offset :: "byte list list \<Rightarrow> nat \<Rightarrow> nat" where
  "char_offset chars k = sum_list (map units_of (take k chars))"

definition exact_sample :: "byte list list \<Rightarrow> sample \<Rightarrow> bool" where
  "exact_sample chars s =
     (\<exists>i \<le> length chars. fst s = int (byte_offset chars i) \<and> snd s = int (char_offset chars i))"

section \<open>Sample stores\<close>

text \<open>
  The state of the three collections in the middle of an editing session, used at concrete
  inputs: a build error and two lint warnings in \<open>/work/a.go\<close>, a lint warning in
  \<open>/work/b.go\<close>.
\<close>

definition sample_uri :: "string \<Rightarrow> string" where
  "sample_uri p = ''file://'' @ p"

definition diagnostic_at :: "int \<Rightarrow> string \<Rightarrow> string \<Rightarrow> Diagnostic" where
  "diagnostic_at l m s =
     \<lparr>range_d = \<lparr>start_line = l, start_character = 0, end_line = l, end_character = 1\<rparr>,
      message = m, severity_d = SeverityError, source = s\<rparr>"

definition sample_stores :: stores where
  "sample_stores =
     \<lparr>buildDiagnosticCollection =
        \<lparr>name = ''go'', entries = [''file:///work/a.go'' \<mapsto> [diagnostic_at 4 ''undefined: y'' ''go'']]\<rparr>,
      lintDiagnosticCollection =
        \<lparr>name = ''go-lint'',
         entries = [''file:///work/a.go'' \<mapsto>
                      [diagnostic_at 4 ''unused y'' ''go-lint'', diagnostic_at 6 ''unused x'' ''go-lint''],
                    ''file:///work/b.go'' \<mapsto> [diagnostic_at 1 ''comment'' ''go-lint'']]\<rparr>,
      vetDiagnosticCollection = \<lparr>name = ''go-vet'', entries = Map.empty\<rparr>\<rparr>"

definition sample_error :: "int \<Rightarrow> string \<Rightarrow> ICheckResult" where
  "sample_error l m = \<lparr>file = ''/work/a.go'', line = l, col = None, msg = m, severity = ''error''\<rparr>"

section \<open>Facts about strings\<close>

lemma split_on_not_Nil: "split_on c s \<noteq> []"
  by (induction s) (auto split: list.splits)

lemma indexOf_found: "f = pre @ p @ post \<Longrightarrow> 0 \<le> indexOf f p"
proof (induction pre arbitrary: f)
  case Nil
  then have "prefix p f" by simp
  then show ?case by (cases f) simp_all
next
  case (Cons a pre)
  then have "0 \<le> indexOf (pre @ p @ post) p" by simp
  with Cons.prems show ?case by (simp add: Let_def)
qed

lemma split_on_head_prefix:
  "split_on c f = t # ts \<Longrightarrow> ts \<noteq> [] \<Longrightarrow> prefix (t @ [c]) f"
proof (induction f arbitrary: t ts)
  case Nil
  then show ?case by simp
next
  case (Cons x xs)
  show ?case
  proof (cases "x = c")
    case True
    with Cons.prems show ?thesis by simp
  next
    case False
    obtain t' ts' where s: "split_on c xs = t' # ts'"
      using split_on_not_Nil [of c xs] by (cases "split_on c xs") auto
    with False Cons.prems have "t = x # t'" "ts = ts'" by simp_all
    with Cons.IH [OF s] Cons.prems show ?thesis by simp
  qed
qed

lemma split_on_inner:
  "s \<in> set (butlast (tl (split_on c f))) \<Longrightarrow> \<exists>pre post. f = pre @ c # s @ c # post"
proof (induction f)
  case Nil
  then show ?case by simp
next
  case (Cons x xs)
  obtain t ts where sp: "split_on c xs = t # ts"
    using split_on_not_Nil [of c xs] by (cases "split_on c xs") auto
  show ?case
  proof (cases "x = c")
    case True
    with Cons.prems sp have "s \<in> set (butlast (t # ts))" by simp
    then consider "s = t" "ts \<noteq> []" | "s \<in> set (butlast ts)"
      by (auto split: if_splits)
    then show ?thesis
    proof cases
      case 1
      with split_on_head_prefix [OF sp] obtain post where "xs = s @ [c] @ post"
        by (auto simp: prefix_def)
      with True have "x # xs = [] @ c # s @ c # post" by simp
      then show ?thesis by blast
    next
      case 2
      with sp Cons.IH obtain pre post where "xs = pre @ c # s @ c # post" by auto
      then have "x # xs = (x # pre) @ c # s @ c # post" by simp
      then show ?thesis by blast
    qed
  next
    case False
    with Cons.prems sp have "s \<in> set (butlast ts)" by simp
    with sp Cons.IH obtain pre post where "xs = pre @ c # s @ c # post" by auto
    then have "x # xs = (x # pre) @ c # s @ c # post" by simp
    then show ?thesis by blast
  qed
qed

section \<open>runTool\<close>

text \<open>When none of the early returns is taken, \<open>runTool\<close> is its loop and the final test.\<close>

lemma runTool_no_early_return:
  assumes "toolName \<noteq> [] \<or> go_path \<noteq> []"
    and "err r \<noteq> Some (CodeString ''ENOENT'')"
    and "\<not> (err r \<noteq> None \<and> stderr r \<noteq> [] \<and> \<not> useStdErr)"
  shows "runTool pm cwd sev useStdErr toolName go_path printUnexpectedOutput activeFile r =
     (let st = runTool_loop pm cwd sev useStdErr printUnexpectedOutput (stderr r)
                 (split_on newline (if useStdErr then stderr r else stdout r))
      in if \<not> atLeastSingleMatch st \<and> unexpectedOutput st \<and> activeFile \<noteq> None \<and> err r \<noteq> None
         then Inr (ret st @ [\<lparr>file = the activeFile, line = 1, col = Some 1,
                              msg = stderr r, severity = ''error''\<rparr>])
         else Inr (ret st))"
  using assms by (auto simp: runTool_def Let_def)

subsection \<open>A line with line and column\<close>

lemma exec_simple_line:
  "map_option (\<lambda>m. (m 2, m 4, m 6, m 7)) (exec line_re ''main.go:10:5: undefined: foo'')
   = Some (Some ''main.go'', Some ''10'', Some ''5'', Some ''undefined: foo'')"
  by code_simp

lemma not_vendor_main_go: "\<not> in_vendor pm ''main.go''"
  by (simp add: in_vendor_def)

lemma digits_10: "digits_to_int ''10'' = 10" "digits_to_int ''5'' = 5"
  by code_simp+

lemma split_single: "split_on newline ''main.go:10:5: undefined: foo'' = [''main.go:10:5: undefined: foo'']"
  by (simp add: newline_def)

lemma runTool_line_simple:
  "runTool_line pm cwd sev u p e st ''main.go:10:5: undefined: foo'' =
     st\<lparr>atLeastSingleMatch := True, ret := ret st @
        [\<lparr>file = resolve pm cwd ''main.go'', line = 10, col = Some 5,
          msg = ''undefined: foo'', severity = sev\<rparr>]\<rparr>"
proof -
  obtain m where m: "exec line_re ''main.go:10:5: undefined: foo'' = Some m"
    "m 2 = Some ''main.go''" "m 4 = Some ''10''" "m 6 = Some ''5''" "m 7 = Some ''undefined: foo''"
    using exec_simple_line by (auto simp: map_option_case split: option.splits)
  show ?thesis
    by (simp add: runTool_line_def m tab_def not_vendor_main_go digits_10 to_number_def Let_def)
qed

text \<open>
  C9, as amended. When the output of the tool is the single line
  \<open>main.go:10:5: undefined: foo\<close>, \<open>runTool\<close> returns exactly one diagnostic, with line 10,
  column 5, message \<open>undefined: foo\<close>, the severity of the caller, and as its file the path
  \<open>main.go\<close> resolved against the working directory of the run.
\<close>

theorem runTool_simple_line:
  assumes "toolName \<noteq> [] \<or> go_path \<noteq> []"
    and "err r \<noteq> Some (CodeString ''ENOENT'')"
    and "\<not> (err r \<noteq> None \<and> stderr r \<noteq> [] \<and> \<not> useStdErr)"
    and "(if useStdErr then stderr r else stdout r) = ''main.go:10:5: undefined: foo''"
  shows "runTool pm cwd sev useStdErr toolName go_path printUnexpectedOutput activeFile r =
     Inr [\<lparr>file = resolve pm cwd ''main.go'', line = 10, col = Some 5,
           msg = ''undefined: foo'', severity = sev\<rparr>]"
proof -
  have loop: "runTool_loop pm cwd sev useStdErr printUnexpectedOutput (stderr r)
                 [''main.go:10:5: undefined: foo''] =
     \<lparr>ret = [\<lparr>file = resolve pm cwd ''main.go'', line = 10, col = Some 5,
           msg = ''undefined: foo'', severity = sev\<rparr>],
      unexpectedOutput = False, atLeastSingleMatch = True\<rparr>"
    by (simp add: runTool_loop_def runTool_line_simple)
  show ?thesis
    unfolding runTool_no_early_return [OF assms(1-3)] assms(4) split_single loop
    by simp
qed

theorem runTool_simple_line_witness:
  "runTool (posix_path ''/home/u'') ''/work'' ''error'' False ''golint'' ''/usr/bin/go'' False None
     \<lparr>err = None, stdout = ''main.go:10:5: undefined: foo'', stderr = []\<rparr> =
   Inr [\<lparr>file = resolve (posix_path ''/home/u'') ''/work'' ''main.go'', line = 10, col = Some 5,
         msg = ''undefined: foo'', severity = ''error''\<rparr>]"
  using runTool_simple_line [of "''golint''" "''/usr/bin/go''"
      "\<lparr>err = None, stdout = ''main.go:10:5: undefined: foo'', stderr = []\<rparr>" False
      "posix_path ''/home/u''" "''/work''" "''error''" False None]
  by simp

text \<open>
  C9, as stated, fails: on a POSIX host, for a run in \<open>/work\<close>, the file of the diagnostic
  is \<open>/work/main.go\<close>, not \<open>main.go\<close>.
\<close>

theorem runTool_simple_line_counterexample:
  "runTool (posix_path ''/home/u'') ''/work'' ''error'' False ''golint'' ''/usr/bin/go'' False None
     \<lparr>err = None, stdout = ''main.go:10:5: undefined: foo'', stderr = []\<rparr> =
   Inr [\<lparr>file = ''/work/main.go'', line = 10, col = Some 5,
         msg = ''undefined: foo'', severity = ''error''\<rparr>] \<and>
   ''/work/main.go'' \<noteq> ''main.go''"
  by code_simp

subsection \<open>Continuation lines\<close>








subsection \<open>Output that does not parse\<close>

lemma runTool_line_no_match:
  assumes "exec line_re l = None" and "ret st = []"
  shows "runTool_line pm cwd sev u p e st l =
           st\<lparr>unexpectedOutput := unexpectedOutput st \<or> (p \<and> u \<and> e \<noteq> [])\<rparr>"
  using assms by (cases st) (auto simp: runTool_line_def)

lemma foldl_no_match:
  assumes "\<forall>l \<in> set ls. exec line_re l = None" and "ret st = []"
  shows "foldl (runTool_line pm cwd sev u p e) st ls =
           st\<lparr>unexpectedOutput := unexpectedOutput st \<or> (ls \<noteq> [] \<and> p \<and> u \<and> e \<noteq> [])\<rparr>"
  using assms
proof (induction ls arbitrary: st)
  case Nil
  then show ?case by simp
next
  case (Cons l ls)
  have step: "runTool_line pm cwd sev u p e st l =
           st\<lparr>unexpectedOutput := unexpectedOutput st \<or> (p \<and> u \<and> e \<noteq> [])\<rparr>"
    using Cons.prems by (simp add: runTool_line_no_match)
  have "foldl (runTool_line pm cwd sev u p e) st (l # ls) =
        foldl (runTool_line pm cwd sev u p e)
          (st\<lparr>unexpectedOutput := unexpectedOutput st \<or> (p \<and> u \<and> e \<noteq> [])\<rparr>) ls"
    by (simp add: step)
  also have "\<dots> = (st\<lparr>unexpectedOutput := unexpectedOutput st \<or> (p \<and> u \<and> e \<noteq> [])\<rparr>)
       \<lparr>unexpectedOutput := (unexpectedOutput st \<or> (p \<and> u \<and> e \<noteq> [])) \<or> (ls \<noteq> [] \<and> p \<and> u \<and> e \<noteq> [])\<rparr>"
    using Cons.IH [of "st\<lparr>unexpectedOutput := unexpectedOutput st \<or> (p \<and> u \<and> e \<noteq> [])\<rparr>"] Cons.prems
    by simp
  finally show ?case by (cases st) auto
qed

text \<open>
  C4, as amended. When the tool failed (with an error other than a missing binary), the
  caller reads its standard error and asked for unexpected output to be reported, the
  standard error is not empty, none of its lines matches the grammar and an editor is
  active, \<open>runTool\<close> returns exactly one diagnostic: at line 1, column 1 of the active
  document, of severity \<open>error\<close>, whose message is the whole standard error.
\<close>

theorem unparsable_output_synthetic:
  assumes found: "toolName \<noteq> [] \<or> go_path \<noteq> []"
    and failed: "err r = Some code" "code \<noteq> CodeString ''ENOENT''"
    and strict: "printUnexpectedOutput"
    and from_stderr: "useStdErr" "stderr r \<noteq> []"
    and editor: "activeFile = Some active"
    and no_match: "\<forall>l \<in> set (split_on newline (stderr r)). exec line_re l = None"
  shows "runTool pm cwd sev useStdErr toolName go_path printUnexpectedOutput activeFile r =
           Inr [\<lparr>file = active, line = 1, col = Some 1, msg = stderr r, severity = ''error''\<rparr>]"
proof -
  have loop: "runTool_loop pm cwd sev useStdErr printUnexpectedOutput (stderr r)
                 (split_on newline (stderr r)) =
              \<lparr>ret = [], unexpectedOutput = True, atLeastSingleMatch = False\<rparr>"
    unfolding runTool_loop_def
    using foldl_no_match [OF no_match, of "\<lparr>ret = [], unexpectedOutput = False, atLeastSingleMatch = False\<rparr>"]
      strict from_stderr split_on_not_Nil [of newline "stderr r"]
    by simp
  show ?thesis
    using runTool_no_early_return [of toolName go_path r useStdErr] found failed from_stderr
      editor loop
    by (simp add: Let_def)
qed

lemma exec_boom: "exec line_re ''exit status 2'' = None"
proof -
  have "map_option (\<lambda>m. ()) (exec line_re ''exit status 2'') = None" by code_simp
  then show ?thesis by simp
qed

theorem unparsable_output_synthetic_witness:
  "runTool (posix_path ''/home/u'') ''/work'' ''warning'' True ''golint'' ''/usr/bin/go'' True
      (Some ''/work/a.go'') \<lparr>err = Some (CodeNumber 2), stdout = [], stderr = ''exit status 2''\<rparr> =
   Inr [\<lparr>file = ''/work/a.go'', line = 1, col = Some 1, msg = ''exit status 2'',
         severity = ''error''\<rparr>]"
  using unparsable_output_synthetic [of "''golint''" "''/usr/bin/go''"
      "\<lparr>err = Some (CodeNumber 2), stdout = [], stderr = ''exit status 2''\<rparr>" "CodeNumber 2"
      True True "Some ''/work/a.go''" "''/work/a.go''" "posix_path ''/home/u''" "''/work''" "''warning''"]
  by (simp add: newline_def exec_boom)

text \<open>
  C4, as stated, fails: with strict reporting requested and no line matching, a tool that
  exits without an error yields no diagnostic at all.
\<close>

theorem unparsable_output_counterexample:
  "runTool (posix_path ''/home/u'') ''/work'' ''warning'' True ''golint'' ''/usr/bin/go'' True
      (Some ''/work/a.go'') \<lparr>err = None, stdout = [], stderr = ''exit status 2''\<rparr> = Inr [] \<and>
   map_option (\<lambda>m. ()) (exec line_re ''exit status 2'') = None \<and>
   split_on newline ''exit status 2'' = [''exit status 2'']"
  by code_simp

subsection \<open>Vendored paths\<close>

lemma vendor_directory_in_vendor:
  assumes "has_vendor_directory (sep pm) f" and "\<not> isAbsolute pm f"
  shows "in_vendor pm f"
proof -
  obtain t ts where sp: "split_on (sep pm) f = t # ts"
    using split_on_not_Nil [of "sep pm" f] by (cases "split_on (sep pm) f") auto
  from assms(1) sp have "''vendor'' \<in> set (butlast (t # ts))"
    by (simp add: has_vendor_directory_def)
  then consider "t = ''vendor''" "ts \<noteq> []" | "''vendor'' \<in> set (butlast ts)"
    by (auto split: if_splits)
  then show ?thesis
  proof cases
    case 1
    with split_on_head_prefix [OF sp] have "prefix (''vendor'' @ [sep pm]) f" by simp
    with assms(2) show ?thesis by (simp add: in_vendor_def)
  next
    case 2
    with sp have "''vendor'' \<in> set (butlast (tl (split_on (sep pm) f)))" by simp
    from split_on_inner [OF this] obtain pre post
      where "f = pre @ ([sep pm] @ ''vendor'' @ [sep pm]) @ post" by auto
    from indexOf_found [OF this] have "- 1 < indexOf f ([sep pm] @ ''vendor'' @ [sep pm])" by simp
    with assms(2) show ?thesis unfolding in_vendor_def by blast
  qed
qed

lemma runTool_line_vendor:
  assumes "exec line_re l = Some m" and "m 2 = Some f" and "in_vendor pm f"
  shows "runTool_line pm cwd sev u p e st l =
     (if l \<noteq> [] \<and> hd l = tab \<and> ret st \<noteq> [] then
        st\<lparr>ret := butlast (ret st) @
                  [(last (ret st))\<lparr>msg := msg (last (ret st)) @ [newline] @ l\<rparr>]\<rparr>
      else st\<lparr>atLeastSingleMatch := True\<rparr>)"
  using assms by (simp add: runTool_line_def Let_def)

lemma exec_vendor_line:
  "map_option (\<lambda>m. m 2) (exec line_re ''pkg/vendor/x/y.go:3: note'') = Some (Some ''pkg/vendor/x/y.go'')"
  by code_simp

lemma vendor_example_directory: "has_vendor_directory CHR ''/'' ''pkg/vendor/x/y.go''"
  by (simp add: has_vendor_directory_def)

text \<open>
  C8, as amended. A line that matches the grammar with a file path that is not absolute
  and has a directory named \<open>vendor\<close>, that is, a segment \<open>vendor\<close> before the last
  separator of the path, the separator being \<open>path.sep\<close> of the platform, adds no
  diagnostic; unless it is taken as a continuation line, the diagnostics are left as they
  were. For example, where the separator is \<open>/\<close>, the output \<open>pkg/vendor/x/y.go:3: note\<close>
  yields no diagnostic.
\<close>

theorem vendor_line_dropped:
  "(exec line_re l = Some m \<and> m 2 = Some f \<and> \<not> isAbsolute pm f \<and> has_vendor_directory (sep pm) f \<longrightarrow>
      length (ret (runTool_line pm cwd sev useStdErr printUnexpectedOutput e st l)) = length (ret st) \<and>
      (\<not> (hd l = tab \<and> ret st \<noteq> []) \<longrightarrow>
         ret (runTool_line pm cwd sev useStdErr printUnexpectedOutput e st l) = ret st)) \<and>
   (sep pm = CHR ''/'' \<and> \<not> isAbsolute pm ''pkg/vendor/x/y.go'' \<and>
    (toolName \<noteq> [] \<or> go_path \<noteq> []) \<and> err r \<noteq> Some (CodeString ''ENOENT'') \<and>
    \<not> (err r \<noteq> None \<and> stderr r \<noteq> [] \<and> \<not> useStdErr) \<and>
    (if useStdErr then stderr r else stdout r) = ''pkg/vendor/x/y.go:3: note'' \<longrightarrow>
      runTool pm cwd sev useStdErr toolName go_path printUnexpectedOutput activeFile r = Inr [])"
proof (intro conjI impI)
  assume a: "exec line_re l = Some m \<and> m 2 = Some f \<and> \<not> isAbsolute pm f \<and> has_vendor_directory (sep pm) f"
  then have v: "in_vendor pm f" by (simp add: vendor_directory_in_vendor)
  note step = runTool_line_vendor [of l m f pm cwd sev useStdErr printUnexpectedOutput e st]
  from a v step show "length (ret (runTool_line pm cwd sev useStdErr printUnexpectedOutput e st l)) = length (ret st)"
    by (cases "ret st = []") auto
  assume "\<not> (hd l = tab \<and> ret st \<noteq> [])"
  with a v step show "ret (runTool_line pm cwd sev useStdErr printUnexpectedOutput e st l) = ret st"
    by auto
next
  assume a: "sep pm = CHR ''/'' \<and> \<not> isAbsolute pm ''pkg/vendor/x/y.go'' \<and>
    (toolName \<noteq> [] \<or> go_path \<noteq> []) \<and> err r \<noteq> Some (CodeString ''ENOENT'') \<and>
    \<not> (err r \<noteq> None \<and> stderr r \<noteq> [] \<and> \<not> useStdErr) \<and>
    (if useStdErr then stderr r else stdout r) = ''pkg/vendor/x/y.go:3: note''"
  obtain m where m: "exec line_re ''pkg/vendor/x/y.go:3: note'' = Some m" "m 2 = Some ''pkg/vendor/x/y.go''"
    using exec_vendor_line by (auto simp: map_option_case split: option.splits)
  from a have v: "in_vendor pm ''pkg/vendor/x/y.go''"
    using vendor_directory_in_vendor [of pm "''pkg/vendor/x/y.go''"] vendor_example_directory by simp
  have sp: "split_on newline ''pkg/vendor/x/y.go:3: note'' = [''pkg/vendor/x/y.go:3: note'']"
    by (simp add: newline_def)
  have loop: "runTool_loop pm cwd sev useStdErr printUnexpectedOutput (stderr r)
                [''pkg/vendor/x/y.go:3: note''] =
              \<lparr>ret = [], unexpectedOutput = False, atLeastSingleMatch = True\<rparr>"
    by (simp add: runTool_loop_def runTool_line_vendor [OF m v])
  from a show "runTool pm cwd sev useStdErr toolName go_path printUnexpectedOutput activeFile r = Inr []"
    using runTool_no_early_return [of toolName go_path r useStdErr] sp loop by simp
qed

theorem vendor_line_dropped_witness:
  "map_option (\<lambda>m. m 2) (exec line_re ''vendor/a/b.go:7:2: shadowed'') = Some (Some ''vendor/a/b.go'') \<and>
   \<not> isAbsolute (posix_path ''/home/u'') ''vendor/a/b.go'' \<and>
   has_vendor_directory (sep (posix_path ''/home/u'')) ''vendor/a/b.go'' \<and>
   ret (runTool_line (posix_path ''/home/u'') ''/work'' ''warning'' False False []
          \<lparr>ret = [], unexpectedOutput = False, atLeastSingleMatch = False\<rparr>
          ''vendor/a/b.go:7:2: shadowed'') = [] \<and>
   runTool (posix_path ''/home/u'') ''/work'' ''warning'' False ''golint'' ''/usr/bin/go'' False None
     \<lparr>err = None, stdout = ''pkg/vendor/x/y.go:3: note'', stderr = []\<rparr> = Inr []"
proof -
  have e: "map_option (\<lambda>m. m 2) (exec line_re ''vendor/a/b.go:7:2: shadowed'') = Some (Some ''vendor/a/b.go'')"
    by code_simp
  then obtain m where m: "exec line_re ''vendor/a/b.go:7:2: shadowed'' = Some m" "m 2 = Some ''vendor/a/b.go''"
    by (auto simp: map_option_case split: option.splits)
  have h: "\<not> isAbsolute (posix_path ''/home/u'') ''vendor/a/b.go''"
    "has_vendor_directory (sep (posix_path ''/home/u'')) ''vendor/a/b.go''"
    "\<not> isAbsolute (posix_path ''/home/u'') ''pkg/vendor/x/y.go''"
    by (simp_all add: posix_path_def has_vendor_directory_def)
  show ?thesis
    using vendor_line_dropped [of "''vendor/a/b.go:7:2: shadowed''" m "''vendor/a/b.go''"
        "posix_path ''/home/u''" "''/work''" "''warning''" False False "[]"
        "\<lparr>ret = [], unexpectedOutput = False, atLeastSingleMatch = False\<rparr>"
        "''golint''" "''/usr/bin/go''"
        "\<lparr>err = None, stdout = ''pkg/vendor/x/y.go:3: note'', stderr = []\<rparr>" None] e m h
    by (simp add: posix_path_def)
qed

text \<open>
  C8, as stated, fails twice. On a POSIX host the path \<open>pkg/vendor\<close> is not absolute and
  has a segment named \<open>vendor\<close>, its last one, and the line \<open>pkg/vendor:3: note\<close> yields a
  diagnostic. On a Windows host, where the separator is the backslash, the claim's
  example \<open>pkg/vendor/x/y.go:3: note\<close> is not absolute and yields a diagnostic.
\<close>

theorem vendor_segment_counterexample:
  "has_vendor_segment (sep (posix_path ''/home/u'')) ''pkg/vendor'' \<and>
   \<not> isAbsolute (posix_path ''/home/u'') ''pkg/vendor'' \<and>
   runTool (posix_path ''/home/u'') ''/work'' ''warning'' False ''golint'' ''/usr/bin/go'' False None
     \<lparr>err = None, stdout = ''pkg/vendor:3: note'', stderr = []\<rparr> =
   Inr [\<lparr>file = ''/work/pkg/vendor'', line = 3, col = None, msg = ''note'',
         severity = ''warning''\<rparr>] \<and>
   \<not> isAbsolute (win32_path (''C:'' @ [backslash] @ ''Users'')) ''pkg/vendor/x/y.go'' \<and>
   runTool (win32_path (''C:'' @ [backslash] @ ''Users'')) (''C:'' @ [backslash] @ ''work'')
     ''warning'' False ''golint'' ''go'' False None
     \<lparr>err = None, stdout = ''pkg/vendor/x/y.go:3: note'', stderr = []\<rparr> =
   Inr [\<lparr>file = ''C:'' @ [backslash] @ ''work'' @ [backslash] @ ''pkg'' @ [backslash] @
                ''vendor'' @ [backslash] @ ''x'' @ [backslash] @ ''y.go'',
         line = 3, col = None, msg = ''note'', severity = ''warning''\<rparr>]"
  by code_simp

section \<open>GoVersion\<close>

text \<open>
  C3, as amended. For every GoVersion that is invalid (no parsed release version and not a
  development build), whatever \<open>semver.coerce\<close> does, \<open>lt(v)\<close> returns false and \<open>gt(v)\<close>
  returns true, for every argument string \<open>v\<close>, whether \<open>v\<close> parses as a version or not.
\<close>

theorem invalid_version_comparisons:
  assumes "\<not> isValid g"
  shows "\<not> lt coerce g v \<and> gt coerce g v"
  using assms by (simp add: isValid_def lt_def gt_def)

theorem invalid_version_comparisons_witness:
  "\<not> isValid (GoVersion_new semver_coerce ''/usr/local/go/bin/go'' ''command not found'') \<and>
   \<not> lt semver_coerce (GoVersion_new semver_coerce ''/usr/local/go/bin/go'' ''command not found'') ''1.13'' \<and>
   gt semver_coerce (GoVersion_new semver_coerce ''/usr/local/go/bin/go'' ''command not found'') ''1.13''"
proof -
  have h: "\<not> isValid (GoVersion_new semver_coerce ''/usr/local/go/bin/go'' ''command not found'')"
    by code_simp
  from invalid_version_comparisons [OF h, of semver_coerce "''1.13''"] h show ?thesis by simp
qed

text \<open>
  C3, as stated, fails: for an invalid instance and an argument that does not parse as a
  version, \<open>gt\<close> returns true, not false.
\<close>

theorem invalid_version_gt_counterexample:
  "\<not> isValid (GoVersion_new semver_coerce ''/usr/local/go/bin/go'' ''command not found'') \<and>
   semver_coerce ''latest'' = None \<and>
   gt semver_coerce (GoVersion_new semver_coerce ''/usr/local/go/bin/go'' ''command not found'') ''latest''"
  by code_simp

text \<open>
  C7. For the version output \<open>go version devel +abc123 linux/amd64\<close> the constructor
  records as commit the whole text that the pattern matched, not the fragment after
  \<open>devel +\<close>, and \<open>format\<close> returns \<open>devel +go version devel +abc123 linux/amd64\<close>, where the
  claim expects \<open>devel +abc123\<close>.
\<close>

theorem devel_commit_is_whole_match:
  "commit (GoVersion_new coerce ''/usr/local/go/bin/go'' ''go version devel +abc123 linux/amd64'') =
     Some ''go version devel +abc123 linux/amd64'' \<and>
   format (GoVersion_new coerce ''/usr/local/go/bin/go'' ''go version devel +abc123 linux/amd64'') =
     ''devel +go version devel +abc123 linux/amd64''"
proof -
  have r: "map_option (\<lambda>m. ()) (exec release_re ''go version devel +abc123 linux/amd64'') = None"
    by code_simp
  have d: "map_option (\<lambda>m. m 0) (exec devel_re ''go version devel +abc123 linux/amd64'') =
             Some (Some ''go version devel +abc123 linux/amd64'')"
    by code_simp
  from r have r': "exec release_re ''go version devel +abc123 linux/amd64'' = None" by simp
  from d obtain m where m: "exec devel_re ''go version devel +abc123 linux/amd64'' = Some m"
    "m 0 = Some ''go version devel +abc123 linux/amd64''"
    by (auto simp: map_option_case split: option.splits)
  show ?thesis
    by (simp add: GoVersion_new_def r' m format_def)
qed

section \<open>LineBuffer\<close>

lemma indexOf_char_none: "c \<notin> set s \<Longrightarrow> indexOf s [c] = - 1"
  by (induction s) (auto simp: Let_def)

lemma indexOf_char_first: "c \<notin> set pre \<Longrightarrow> indexOf (pre @ c # post) [c] = int (length pre)"
  by (induction pre) (auto simp: Let_def)

lemma split_on_no_sep: "c \<notin> set s \<Longrightarrow> split_on c s = [s]"
  by (induction s) auto

lemma split_on_first_sep: "c \<notin> set pre \<Longrightarrow> split_on c (pre @ c # post) = pre # split_on c post"
  by (induction pre) auto

lemma split_on_pieces_no_sep: "x \<in> set (split_on c s) \<Longrightarrow> c \<notin> set x"
proof (induction s arbitrary: x)
  case Nil
  then show ?case by simp
next
  case (Cons a s)
  obtain t ts where sp: "split_on c s = t # ts"
    using split_on_not_Nil [of c s] by (cases "split_on c s") auto
  with Cons show ?case by (cases "a = c") auto
qed

lemma split_on_append:
  "split_on c (s @ t) = butlast (split_on c s) @ split_on c (last (split_on c s) @ t)"
proof (induction s)
  case Nil
  then show ?case by simp
next
  case (Cons x xs)
  obtain a as where sp: "split_on c xs = a # as"
    using split_on_not_Nil [of c xs] by (cases "split_on c xs") auto
  show ?case
  proof (cases "x = c")
    case True
    with Cons sp show ?thesis by simp
  next
    case False
    show ?thesis
    proof (cases "as = []")
      case True
      with Cons sp have "split_on c (xs @ t) = split_on c (a @ t)" by simp
      with sp True False show ?thesis by simp
    next
      case as: False
      with Cons sp have "split_on c (xs @ t) = a # butlast as @ split_on c (last as @ t)" by simp
      with sp as False show ?thesis by simp
    qed
  qed
qed

lemma fireLine_buf: "fireLine (lb\<lparr>buf := b\<rparr>) = fireLine lb"
  by (rule ext)+ (simp add: fireLine_def)

lemma append_loop_split:
  "append_loop lb w =
     (lb\<lparr>buf := last (split_on newline (buf lb))\<rparr>,
      foldl (\<lambda>w' l. fireLine lb l w') w (butlast (split_on newline (buf lb))))"
proof (induction "length (buf lb)" arbitrary: lb w rule: less_induct)
  case less
  show ?case
  proof (cases "newline \<in> set (buf lb)")
    case False
    then show ?thesis
      by (subst append_loop.simps) (simp add: indexOf_char_none split_on_no_sep Let_def)
  next
    case True
    then obtain pre post where b: "buf lb = pre @ newline # post" "newline \<notin> set pre"
      by (auto dest: split_list_first)
    have idx: "indexOf (buf lb) [newline] = int (length pre)"
      using b by (simp add: indexOf_char_first)
    have IH: "append_loop (lb\<lparr>buf := post\<rparr>) (fireLine lb pre w) =
       (lb\<lparr>buf := last (split_on newline post)\<rparr>,
        foldl (\<lambda>w' l. fireLine lb l w') (fireLine lb pre w) (butlast (split_on newline post)))"
      using less [of "lb\<lparr>buf := post\<rparr>" "fireLine lb pre w"] b
      by (simp add: fireLine_buf)
    have "append_loop lb w = append_loop (lb\<lparr>buf := post\<rparr>) (fireLine lb pre w)"
      by (subst append_loop.simps) (simp add: b indexOf_char_first substring_def substring_from_def Let_def)
    also note IH
    finally show ?thesis
      using b split_on_not_Nil [of newline post] by (simp add: split_on_first_sep)
  qed
qed

lemma appends_split:
  assumes "newline \<notin> set (buf lb)"
  shows "foldl (\<lambda>s c. append c s) (lb, w) chunks =
     (lb\<lparr>buf := last (split_on newline (buf lb @ concat chunks))\<rparr>,
      foldl (\<lambda>w' l. fireLine lb l w') w (butlast (split_on newline (buf lb @ concat chunks))))"
  using assms
proof (induction chunks arbitrary: lb w)
  case Nil
  then show ?case by (simp add: split_on_no_sep)
next
  case (Cons c cs)
  let ?b = "last (split_on newline (buf lb @ c))"
  let ?w = "foldl (\<lambda>w' l. fireLine lb l w') w (butlast (split_on newline (buf lb @ c)))"
  have step: "append c (lb, w) = (lb\<lparr>buf := ?b\<rparr>, ?w)"
    by (simp add: append_def append_loop_split fireLine_buf)
  have nosep: "newline \<notin> set (buf (lb\<lparr>buf := ?b\<rparr>))"
    using split_on_pieces_no_sep [of ?b newline "buf lb @ c"] split_on_not_Nil [of newline "buf lb @ c"]
    by simp
  have sp: "split_on newline (buf lb @ concat (c # cs)) =
        butlast (split_on newline (buf lb @ c)) @ split_on newline (?b @ concat cs)"
    using split_on_append [of newline "buf lb @ c" "concat cs"] by simp
  have "foldl (\<lambda>s c. append c s) (lb, w) (c # cs) =
        foldl (\<lambda>s c. append c s) (lb\<lparr>buf := ?b\<rparr>, ?w) cs"
    by (simp add: step)
  also have "\<dots> = (lb\<lparr>buf := last (split_on newline (?b @ concat cs))\<rparr>,
      foldl (\<lambda>w' l. fireLine lb l w') ?w (butlast (split_on newline (?b @ concat cs))))"
    using Cons.IH [OF nosep, of ?w] by (simp add: fireLine_buf)
  finally show ?case
    unfolding sp using split_on_not_Nil [of newline "?b @ concat cs"]
    by (simp add: butlast_append)
qed

text \<open>
  C10. On a LineBuffer whose buffer is empty, after any sequence of \<open>append(chunk)\<close> calls
  and one \<open>done()\<close>, the world is the one obtained by calling, for each newline-terminated
  segment of the concatenation of the chunks, in order and without its newline, every
  registered line listener on it, in the order of registration, and then every registered
  done listener on the text after the last newline, or on \<open>null\<close> when that text is empty.
\<close>

theorem LineBuffer_lines_and_rest:
  assumes "buf lb = []"
  shows "snd (done_lb (foldl (\<lambda>s chunk. append chunk s) (lb, w) chunks)) =
     foldl (\<lambda>w' listener.
              listener (if last (split_on newline (concat chunks)) \<noteq> []
                        then Some (last (split_on newline (concat chunks))) else None) w')
       (foldl (\<lambda>w' l. foldl (\<lambda>w'' listener. listener l w'') w' (lineListeners lb)) w
          (butlast (split_on newline (concat chunks))))
       (lastListeners lb)"
proof -
  have "newline \<notin> set (buf lb)" using assms by simp
  from appends_split [OF this, of w chunks] assms show ?thesis
    by (simp add: done_lb_def fireDone_def fireLine_def)
qed

theorem LineBuffer_lines_and_rest_witness:
  "buf (onDone (\<lambda>l w. w @ [(''done'', l)])
         (onLine (\<lambda>l w. w @ [(''second'', Some l)])
            (onLine (\<lambda>l w. w @ [(''first'', Some l)]) LineBuffer_new))) = [] \<and>
   snd (done_lb (foldl (\<lambda>s chunk. append chunk s)
         (onDone (\<lambda>l w. w @ [(''done'', l)])
            (onLine (\<lambda>l w. w @ [(''second'', Some l)])
               (onLine (\<lambda>l w. w @ [(''first'', Some l)]) LineBuffer_new)), [])
         [''ab'', ''c'' @ [newline] @ ''de'' @ [newline, newline], ''f''])) =
     [(''first'', Some ''abc''), (''second'', Some ''abc''),
      (''first'', Some ''de''), (''second'', Some ''de''),
      (''first'', Some []), (''second'', Some []),
      (''done'', Some ''f'')]"
proof -
  let ?lb = "onDone (\<lambda>l w. w @ [(''done'', l)])
         (onLine (\<lambda>l w. w @ [(''second'', Some l)])
            (onLine (\<lambda>l w. w @ [(''first'', Some l)])
               (LineBuffer_new :: (string \<times> string option) list LineBuffer)))"
  have h: "buf ?lb = []"
    by (simp add: onDone_def onLine_def LineBuffer_new_def)
  show ?thesis
    using LineBuffer_lines_and_rest [OF h, of "[]"
        "[''ab'', ''c'' @ [newline] @ ''de'' @ [newline, newline], ''f'']"] h
    by (simp add: onDone_def onLine_def LineBuffer_new_def newline_def)
qed

section \<open>handleDiagnosticErrors\<close>

lemma indexOf_single: "indexOf xs [y] = - 1 \<longleftrightarrow> y \<notin> set xs"
proof
  assume "indexOf xs [y] = - 1"
  show "y \<notin> set xs"
  proof
    assume "y \<in> set xs"
    then obtain pre post where "xs = pre @ [y] @ post" by (auto dest: split_list)
    from indexOf_found [OF this] \<open>indexOf xs [y] = - 1\<close> show False by simp
  qed
next
  assume "y \<notin> set xs"
  then show "indexOf xs [y] = - 1" by (induction xs) (auto simp: Let_def)
qed

lemma deDupeDiagnostics_filter:
  "deDupeDiagnostics bs = filter (\<lambda>d. start_line (range_d d) \<notin> lines_of bs)"
  by (rule ext) (simp add: deDupeDiagnostics_def lines_of_def indexOf_single Let_def)

lemma deDupeDiagnostics_Nil: "deDupeDiagnostics [] os = os"
  by (simp add: deDupeDiagnostics_filter lines_of_def)

subsection \<open>The diagnostic map\<close>

lemma map_of_map_set: "map_of (map_set k v al) = (map_of al)(k \<mapsto> v)"
  by (induction al) (auto simp: fun_eq_iff)

lemma keys_map_set: "fst ` set (map_set k v al) = insert k (fst ` set al)"
  by (induction al) auto

lemma distinct_map_set: "distinct (map fst al) \<Longrightarrow> distinct (map fst (map_set k v al))"
  by (induction al) (auto simp: keys_map_set)

lemma new_diagnostics_not_mentioned:
  "f \<notin> mentioned u es \<Longrightarrow> new_diagnostics u doc nm es f = []"
  by (induction es) (auto simp: new_diagnostics_def mentioned_def)

lemma diagnosticMap_of_distinct:
  "diagnosticMap_of u doc nm es dm0 = Inr dm \<Longrightarrow> distinct (map fst dm0) \<Longrightarrow> distinct (map fst dm)"
proof (induction es arbitrary: dm0)
  case Nil
  then show ?case by simp
next
  case (Cons e es)
  then show ?case
    by (auto simp: Let_def distinct_map_set split: sum.splits)
qed

lemma diagnosticMap_of_lookup:
  "diagnosticMap_of u doc nm es dm0 = Inr dm \<Longrightarrow>
   map_of dm f =
     (if f \<in> mentioned u es
      then Some ((case map_of dm0 f of None \<Rightarrow> [] | Some ds \<Rightarrow> ds) @ new_diagnostics u doc nm es f)
      else map_of dm0 f)"
proof (induction es arbitrary: dm0)
  case Nil
  then show ?case by (simp add: mentioned_def)
next
  case (Cons e es)
  from Cons.prems obtain d where d: "to_diagnostic u doc nm e = Inr d"
    by (auto split: sum.splits)
  let ?k = "u (file e)"
  let ?old = "case map_of dm0 ?k of None \<Rightarrow> [] | Some ds \<Rightarrow> ds"
  let ?dm1 = "map_set ?k (?old @ [d]) dm0"
  from Cons.prems d have rest: "diagnosticMap_of u doc nm es ?dm1 = Inr dm"
    by (simp add: Let_def)
  note IH = Cons.IH [OF rest]
  have m: "mentioned u (e # es) = insert ?k (mentioned u es)"
    by (simp add: mentioned_def)
  show ?case
  proof (cases "f = ?k")
    case True
    have new: "new_diagnostics u doc nm (e # es) f = d # new_diagnostics u doc nm es f"
      using True d by (simp add: new_diagnostics_def)
    show ?thesis
    proof (cases "f \<in> mentioned u es")
      case True
      with IH \<open>f = ?k\<close> new m show ?thesis by (simp add: map_of_map_set)
    next
      case False
      with IH \<open>f = ?k\<close> new m new_diagnostics_not_mentioned [OF False, of doc nm]
      show ?thesis by (simp add: map_of_map_set)
    qed
  next
    case False
    have new: "new_diagnostics u doc nm (e # es) f = new_diagnostics u doc nm es f"
      using False by (auto simp: new_diagnostics_def)
    from IH False new m show ?thesis by (simp add: map_of_map_set)
  qed
qed

subsection \<open>One file merged\<close>

lemma collection_collection_update:
  "collection c' (collection_update c g st) = (if c' = c then g (collection c st) else collection c' st)"
  by (cases c; cases c') (simp_all add: collection_def collection_update_def)

lemma build_collection: "buildDiagnosticCollection st = collection Build st"
  and lint_collection: "lintDiagnosticCollection st = collection Lint st"
  and vet_collection: "vetDiagnosticCollection st = collection Vet st"
  by (simp_all add: collection_def)

lemma merge_file_other:
  "c \<noteq> Build \<Longrightarrow> c' \<noteq> c \<Longrightarrow> collection c' (merge_file c st kv) = collection c' st"
  by (cases kv) (simp add: merge_file_def collection_collection_update)

lemma merge_file_own:
  "c \<noteq> Build \<Longrightarrow>
   entries (collection c (merge_file c st (k, new))) =
     (entries (collection c st))(k \<mapsto> deDupeDiagnostics (get (collection Build st) k) new)"
  by (simp add: merge_file_def collection_collection_update set_entry_def build_collection
      has_def get_def deDupeDiagnostics_Nil)

lemma merge_file_build_own:
  "entries (collection Build (merge_file Build st (k, new))) = (entries (collection Build st))(k \<mapsto> new)"
  by (simp add: merge_file_def collection_collection_update set_entry_def Let_def)

lemma merge_file_build_other:
  "c' \<noteq> Build \<Longrightarrow>
   entries (collection c' (merge_file Build st (k, new))) f =
     (if f = k then map_option (deDupeDiagnostics new) (entries (collection c' st) k)
      else entries (collection c' st) f)"
  by (cases c')
     (auto simp: merge_file_def collection_collection_update set_entry_def Let_def
        lint_collection vet_collection has_def get_def)

subsection \<open>All files merged\<close>

lemma foldl_merge_other:
  "c \<noteq> Build \<Longrightarrow> c' \<noteq> c \<Longrightarrow> collection c' (foldl (merge_file c) st dm) = collection c' st"
  by (induction dm arbitrary: st) (simp_all add: merge_file_other)

lemma foldl_merge_own:
  "c \<noteq> Build \<Longrightarrow> distinct (map fst dm) \<Longrightarrow>
   entries (collection c (foldl (merge_file c) st dm)) f =
     (case map_of dm f of
        None \<Rightarrow> entries (collection c st) f
      | Some new \<Rightarrow> Some (deDupeDiagnostics (get (collection Build st) f) new))"
proof (induction dm arbitrary: st)
  case Nil
  then show ?case by simp
next
  case (Cons kv dm)
  obtain k new where kv: "kv = (k, new)" by (cases kv)
  from Cons.prems kv have k: "map_of dm k = None" by (simp add: map_of_eq_None_iff)
  have b: "collection Build (merge_file c st kv) = collection Build st"
    using Cons.prems by (simp add: merge_file_other)
  from Cons.prems have "entries (collection c (foldl (merge_file c) (merge_file c st kv) dm)) f =
     (case map_of dm f of
        None \<Rightarrow> entries (collection c (merge_file c st kv)) f
      | Some new \<Rightarrow> Some (deDupeDiagnostics (get (collection Build (merge_file c st kv)) f) new))"
    using Cons.IH [of "merge_file c st kv"] by simp
  then show ?case
    using k Cons.prems(1) b by (auto simp: kv merge_file_own split: option.splits)
qed

lemma foldl_merge_build_own:
  "distinct (map fst dm) \<Longrightarrow>
   entries (collection Build (foldl (merge_file Build) st dm)) f =
     (case map_of dm f of None \<Rightarrow> entries (collection Build st) f | Some new \<Rightarrow> Some new)"
proof (induction dm arbitrary: st)
  case Nil
  then show ?case by simp
next
  case (Cons kv dm)
  obtain k new where kv: "kv = (k, new)" by (cases kv)
  from Cons.prems kv have k: "map_of dm k = None" by (simp add: map_of_eq_None_iff)
  from Cons.prems have "entries (collection Build (foldl (merge_file Build) (merge_file Build st kv) dm)) f =
     (case map_of dm f of
        None \<Rightarrow> entries (collection Build (merge_file Build st kv)) f | Some new \<Rightarrow> Some new)"
    using Cons.IH [of "merge_file Build st kv"] by simp
  then show ?case
    using k by (auto simp: kv merge_file_build_own split: option.splits)
qed

lemma foldl_merge_build_other:
  "c' \<noteq> Build \<Longrightarrow> distinct (map fst dm) \<Longrightarrow>
   entries (collection c' (foldl (merge_file Build) st dm)) f =
     (case map_of dm f of
        None \<Rightarrow> entries (collection c' st) f
      | Some new \<Rightarrow> map_option (deDupeDiagnostics new) (entries (collection c' st) f))"
proof (induction dm arbitrary: st)
  case Nil
  then show ?case by simp
next
  case (Cons kv dm)
  obtain k new where kv: "kv = (k, new)" by (cases kv)
  from Cons.prems kv have k: "map_of dm k = None" by (simp add: map_of_eq_None_iff)
  from Cons.prems have "entries (collection c' (foldl (merge_file Build) (merge_file Build st kv) dm)) f =
     (case map_of dm f of
        None \<Rightarrow> entries (collection c' (merge_file Build st kv)) f
      | Some new \<Rightarrow> map_option (deDupeDiagnostics new) (entries (collection c' (merge_file Build st kv)) f))"
    using Cons.IH [of "merge_file Build st kv"] by simp
  then show ?case
    using k Cons.prems(1) by (auto simp: kv merge_file_build_other split: option.splits)
qed

lemma cleared_collection:
  "entries (collection c' (collection_update c clear st)) f =
     (if c' = c then None else entries (collection c' st) f)"
  "name (collection c' (collection_update c clear st)) = name (collection c' st)"
  by (simp_all add: collection_collection_update clear_def)

lemma cleared_other: "c' \<noteq> c \<Longrightarrow> collection c' (collection_update c clear st) = collection c' st"
  by (simp add: collection_collection_update)

lemma cleared_get: "get (collection Build (collection_update c clear st)) f =
    (if c = Build then [] else get (collection Build st) f)"
  by (simp add: get_def collection_collection_update clear_def)

lemma handleDiagnosticErrors_cases:
  obtains (failed) x where
      "diagnosticMap_of u doc (name (collection c st)) es [] = Inl x"
      "handleDiagnosticErrors u doc es c st = (Some x, collection_update c clear st)"
  | (merged) dm where
      "diagnosticMap_of u doc (name (collection c st)) es [] = Inr dm"
      "distinct (map fst dm)"
      "handleDiagnosticErrors u doc es c st =
         (None, foldl (merge_file c) (collection_update c clear st) dm)"
proof (cases "diagnosticMap_of u doc (name (collection c st)) es []")
  case (Inl x)
  then show ?thesis
    using failed [of x] by (simp add: handleDiagnosticErrors_def cleared_collection Let_def)
next
  case (Inr dm)
  then show ?thesis
    using merged [of dm] diagnosticMap_of_distinct [of u doc "name (collection c st)" es "[]" dm]
    by (simp add: handleDiagnosticErrors_def cleared_collection Let_def)
qed

text \<open>
  C1. When \<open>handleDiagnosticErrors\<close> returns normally and the new set mentions file \<open>f\<close>:
  for a Build set, the new diagnostics of \<open>f\<close> are stored, and the Lint and the Vet
  diagnostics stored for \<open>f\<close> lose exactly those whose line is the line of a new Build
  diagnostic, the others staying as they were, in their order; for a Lint or Vet set, the
  Build collection is not changed at all, and what is stored for \<open>f\<close> is the incoming
  diagnostics without those whose line is the line of an existing Build diagnostic of \<open>f\<close>.
\<close>

theorem merge_by_line:
  assumes ok: "fst (handleDiagnosticErrors uri_file document errors c st) = None"
    and f: "f \<in> mentioned uri_file errors"
  shows
    "(c = Build \<longrightarrow>
        entries (buildDiagnosticCollection (snd (handleDiagnosticErrors uri_file document errors c st))) f =
          Some (new_diagnostics uri_file document (name (collection c st)) errors f) \<and>
        (\<forall>c'. c' \<noteq> Build \<longrightarrow>
           entries (collection c' (snd (handleDiagnosticErrors uri_file document errors c st))) f =
             map_option
               (filter (\<lambda>d. start_line (range_d d) \<notin>
                  lines_of (new_diagnostics uri_file document (name (collection c st)) errors f)))
               (entries (collection c' st) f))) \<and>
     (c \<noteq> Build \<longrightarrow>
        buildDiagnosticCollection (snd (handleDiagnosticErrors uri_file document errors c st)) =
          buildDiagnosticCollection st \<and>
        entries (collection c (snd (handleDiagnosticErrors uri_file document errors c st))) f =
          Some (filter (\<lambda>d. start_line (range_d d) \<notin> lines_of (get (buildDiagnosticCollection st) f))
                  (new_diagnostics uri_file document (name (collection c st)) errors f)))"
proof (cases rule: handleDiagnosticErrors_cases [of uri_file document c st errors])
  case (failed x)
  with ok show ?thesis by simp
next
  case (merged dm)
  let ?new = "new_diagnostics uri_file document (name (collection c st)) errors f"
  let ?st0 = "collection_update c clear st"
  have look: "map_of dm f = Some ?new"
    using diagnosticMap_of_lookup [OF merged(1), of f] f by simp
  have res: "snd (handleDiagnosticErrors uri_file document errors c st) = foldl (merge_file c) ?st0 dm"
    using merged(3) by simp
  show ?thesis
  proof (intro conjI impI allI)
    assume c: "c = Build"
    show "entries (buildDiagnosticCollection (snd (handleDiagnosticErrors uri_file document errors c st))) f =
          Some ?new"
      unfolding res build_collection
      using foldl_merge_build_own [OF merged(2), of ?st0 f] look c by simp
    fix c' assume c': "c' \<noteq> Build"
    show "entries (collection c' (snd (handleDiagnosticErrors uri_file document errors c st))) f =
             map_option (filter (\<lambda>d. start_line (range_d d) \<notin> lines_of ?new)) (entries (collection c' st) f)"
      unfolding res
      using foldl_merge_build_other [OF c' merged(2), of ?st0 f] look c c'
      by (simp add: cleared_collection deDupeDiagnostics_filter)
  next
    assume c: "c \<noteq> Build"
    show "buildDiagnosticCollection (snd (handleDiagnosticErrors uri_file document errors c st)) =
          buildDiagnosticCollection st"
      unfolding res build_collection
      using foldl_merge_other [OF c, of Build ?st0 dm] c cleared_other [of Build c st] by simp
    show "entries (collection c (snd (handleDiagnosticErrors uri_file document errors c st))) f =
          Some (filter (\<lambda>d. start_line (range_d d) \<notin> lines_of (get (buildDiagnosticCollection st) f)) ?new)"
      unfolding res build_collection
      using foldl_merge_own [OF c merged(2), of ?st0 f] look c
      by (simp add: cleared_get deDupeDiagnostics_filter)
  qed
qed

theorem merge_by_line_witness:
  "fst (handleDiagnosticErrors sample_uri None [sample_error 7 ''undefined: x''] Build sample_stores) = None \<and>
   fst (handleDiagnosticErrors sample_uri None [sample_error 5 ''exported'', sample_error 9 ''shadow'']
          Lint sample_stores) = None \<and>
   ''file:///work/a.go'' \<in> mentioned sample_uri [sample_error 7 ''undefined: x''] \<and>
   ''file:///work/a.go'' \<in> mentioned sample_uri [sample_error 5 ''exported'', sample_error 9 ''shadow''] \<and>
   entries (collection Lint
      (snd (handleDiagnosticErrors sample_uri None [sample_error 7 ''undefined: x''] Build sample_stores)))
      ''file:///work/a.go'' = Some [diagnostic_at 4 ''unused y'' ''go-lint''] \<and>
   entries (collection Lint
      (snd (handleDiagnosticErrors sample_uri None [sample_error 5 ''exported'', sample_error 9 ''shadow'']
              Lint sample_stores)))
      ''file:///work/a.go'' = Some [diagnostic_at 8 ''shadow'' ''go-lint''] \<and>
   buildDiagnosticCollection
      (snd (handleDiagnosticErrors sample_uri None [sample_error 5 ''exported'', sample_error 9 ''shadow'']
              Lint sample_stores)) = buildDiagnosticCollection sample_stores"
proof -
  let ?f = "''file:///work/a.go''"
  let ?b = "[sample_error 7 ''undefined: x'']"
  let ?l = "[sample_error 5 ''exported'', sample_error 9 ''shadow'']"
  have ok_b: "fst (handleDiagnosticErrors sample_uri None ?b Build sample_stores) = None"
    by code_simp
  have ok_l: "fst (handleDiagnosticErrors sample_uri None ?l Lint sample_stores) = None"
    by code_simp
  have m_b: "?f \<in> mentioned sample_uri ?b"
    by (simp add: mentioned_def sample_uri_def sample_error_def)
  have m_l: "?f \<in> mentioned sample_uri ?l"
    by (simp add: mentioned_def sample_uri_def sample_error_def)
  have new_b: "new_diagnostics sample_uri None (name (collection Build sample_stores)) ?b ?f =
                 [diagnostic_at 6 ''undefined: x'' ''go'']"
    by code_simp
  have new_l: "new_diagnostics sample_uri None (name (collection Lint sample_stores)) ?l ?f =
                 [diagnostic_at 4 ''exported'' ''go-lint'', diagnostic_at 8 ''shadow'' ''go-lint'']"
    by code_simp
  have old_l: "entries (collection Lint sample_stores) ?f =
                 Some [diagnostic_at 4 ''unused y'' ''go-lint'', diagnostic_at 6 ''unused x'' ''go-lint'']"
    by (simp add: collection_def sample_stores_def)
  have old_b: "get (buildDiagnosticCollection sample_stores) ?f = [diagnostic_at 4 ''undefined: y'' ''go'']"
    by (simp add: get_def sample_stores_def)
  from merge_by_line [OF ok_b m_b]
  have 1: "entries (collection Lint (snd (handleDiagnosticErrors sample_uri None ?b Build sample_stores))) ?f
      = Some [diagnostic_at 4 ''unused y'' ''go-lint'']"
    by (simp add: new_b old_l lines_of_def diagnostic_at_def)
  from merge_by_line [OF ok_l m_l]
  have 2: "entries (collection Lint (snd (handleDiagnosticErrors sample_uri None ?l Lint sample_stores))) ?f
      = Some [diagnostic_at 8 ''shadow'' ''go-lint'']"
    and 3: "buildDiagnosticCollection (snd (handleDiagnosticErrors sample_uri None ?l Lint sample_stores)) =
           buildDiagnosticCollection sample_stores"
    by (simp_all add: new_l old_b lines_of_def diagnostic_at_def)
  from ok_b ok_l m_b m_l 1 2 3 show ?thesis by blast
qed

text \<open>
  C6, as amended. Publishing a new diagnostic set for one category replaces the whole
  collection of that category: a file that the new run does not mention has no
  diagnostics in that category afterwards, and its diagnostics in the two other
  categories are unchanged.
\<close>

theorem run_replaces_category:
  assumes "g \<notin> mentioned uri_file errors"
  shows "entries (collection c (snd (handleDiagnosticErrors uri_file document errors c st))) g = None \<and>
    (\<forall>c'. c' \<noteq> c \<longrightarrow>
       entries (collection c' (snd (handleDiagnosticErrors uri_file document errors c st))) g =
         entries (collection c' st) g)"
proof (cases rule: handleDiagnosticErrors_cases [of uri_file document c st errors])
  case (failed x)
  then show ?thesis by (simp add: cleared_collection)
next
  case (merged dm)
  let ?st0 = "collection_update c clear st"
  have look: "map_of dm g = None"
    using diagnosticMap_of_lookup [OF merged(1), of g] assms by simp
  have res: "snd (handleDiagnosticErrors uri_file document errors c st) = foldl (merge_file c) ?st0 dm"
    using merged(3) by simp
  show ?thesis
  proof (cases "c = Build")
    case True
    show ?thesis
      unfolding res
      using foldl_merge_build_own [OF merged(2), of ?st0 g]
        foldl_merge_build_other [OF _ merged(2), of _ ?st0 g] look True
      by (simp add: cleared_collection)
  next
    case False
    show ?thesis
      unfolding res
      using foldl_merge_own [OF False merged(2), of ?st0 g] foldl_merge_other [OF False, of _ ?st0 dm] look
      by (simp add: cleared_collection)
  qed
qed

theorem run_replaces_category_witness:
  "''file:///work/b.go'' \<notin> mentioned sample_uri [sample_error 9 ''shadow''] \<and>
   entries (collection Lint
      (snd (handleDiagnosticErrors sample_uri None [sample_error 9 ''shadow''] Lint sample_stores)))
      ''file:///work/b.go'' = None \<and>
   entries (collection Build
      (snd (handleDiagnosticErrors sample_uri None [sample_error 9 ''shadow''] Lint sample_stores)))
      ''file:///work/b.go'' = entries (collection Build sample_stores) ''file:///work/b.go''"
proof -
  have h: "''file:///work/b.go'' \<notin> mentioned sample_uri [sample_error 9 ''shadow'']"
    by (simp add: mentioned_def sample_uri_def sample_error_def)
  from run_replaces_category [OF h, of Lint None sample_stores] h show ?thesis by simp
qed

text \<open>
  C6, as stated, fails: a Lint run that reports only on \<open>/work/a.go\<close> removes the Lint
  diagnostic stored for \<open>/work/b.go\<close>.
\<close>

theorem run_keeps_other_files_counterexample:
  "''file:///work/b.go'' \<notin> mentioned sample_uri [sample_error 9 ''shadow''] \<and>
   entries (lintDiagnosticCollection sample_stores) ''file:///work/b.go'' =
     Some [diagnostic_at 1 ''comment'' ''go-lint''] \<and>
   entries (lintDiagnosticCollection
      (snd (handleDiagnosticErrors sample_uri None [sample_error 9 ''shadow''] Lint sample_stores)))
      ''file:///work/b.go'' = None"
  by code_simp

section \<open>makeMemoizedByteOffsetConverter\<close>

lemma decode_one_char:
  assumes "utf8_char ch"
  shows "utf16_length_from None (ch @ rest) = units_of ch + utf16_length_from None rest"
proof -
  consider a where "ch = [a]" | a b where "ch = [a, b]" | a b c where "ch = [a, b, c]"
    | a b c d where "ch = [a, b, c, d]"
    using assms by (auto simp: utf8_char_def split: list.splits)
  then show ?thesis
  proof cases
    case 1
    with assms show ?thesis
      by (simp add: utf8_char_def utf8_lead_def units_of_def)
  next
    case 2
    with assms show ?thesis
      by (auto simp: utf8_char_def utf8_lead_def units_of_def continuation_def word_le_nat_alt)
  next
    case 3
    with assms show ?thesis
      by (auto simp: utf8_char_def utf8_lead_def units_of_def continuation_def word_le_nat_alt
          split: if_splits)
  next
    case 4
    with assms show ?thesis
      by (auto simp: utf8_char_def utf8_lead_def units_of_def continuation_def word_le_nat_alt
          split: if_splits)
  qed
qed

lemma decode_chars:
  "\<forall>ch \<in> set chars. utf8_char ch \<Longrightarrow>
   utf16_length_from None (concat chars) = sum_list (map units_of chars)"
  by (induction chars) (simp_all add: decode_one_char)

lemma utf8_char_not_Nil: "utf8_char ch \<Longrightarrow> ch \<noteq> []"
  by (auto simp: utf8_char_def)

lemma take_split: "i \<le> j \<Longrightarrow> take j xs = take i xs @ drop i (take j xs)"
proof -
  assume "i \<le> j"
  then have "take i (take j xs) = take i xs" by (simp add: min_def)
  then show ?thesis using append_take_drop_id [of i "take j xs"] by simp
qed

lemma byte_offset_split:
  "i \<le> j \<Longrightarrow> byte_offset chars j = byte_offset chars i + length (concat (drop i (take j chars)))"
  using take_split [of i j chars] by (simp add: byte_offset_def) (metis concat_append length_append)

lemma char_offset_split:
  "i \<le> j \<Longrightarrow> char_offset chars j = char_offset chars i + sum_list (map units_of (drop i (take j chars)))"
  using take_split [of i j chars] by (simp add: char_offset_def) (metis map_append sum_list_append)

lemma char_offset_mono: "i \<le> j \<Longrightarrow> char_offset chars i \<le> char_offset chars j"
  by (simp add: char_offset_split)

lemma byte_offset_strict:
  assumes wf: "\<forall>ch \<in> set chars. utf8_char ch" and "i < j" and "j \<le> length chars"
  shows "byte_offset chars i < byte_offset chars j"
proof -
  from assms have ne: "drop i (take j chars) \<noteq> []" by simp
  then obtain ch rest where d: "drop i (take j chars) = ch # rest"
    by (cases "drop i (take j chars)") auto
  then have "ch \<in> set (drop i (take j chars))" by simp
  then have "ch \<in> set chars" by (meson in_set_dropD in_set_takeD)
  with wf have "ch \<noteq> []" by (simp add: utf8_char_not_Nil)
  with d have "0 < length (concat (drop i (take j chars)))" by simp
  with byte_offset_split [of i j chars] assms(2) show ?thesis by simp
qed

lemma byte_offset_less_index:
  assumes wf: "\<forall>ch \<in> set chars. utf8_char ch" and "i \<le> length chars" and "j \<le> length chars"
    and "byte_offset chars i < byte_offset chars j"
  shows "i < j"
proof (rule ccontr)
  assume "\<not> i < j"
  then have "j \<le> i" by simp
  then have "byte_offset chars j \<le> byte_offset chars i"
    by (simp add: byte_offset_split)
  with assms(4) show False by simp
qed

lemma byte_offset_eq_index:
  assumes wf: "\<forall>ch \<in> set chars. utf8_char ch" and "i \<le> length chars" and "j \<le> length chars"
    and "byte_offset chars i = byte_offset chars j"
  shows "i = j"
  using byte_offset_strict [OF wf, of i j] byte_offset_strict [OF wf, of j i] assms(2-4)
  by (cases i j rule: linorder_cases) auto

lemma byte_offset_le_length: "byte_offset chars j \<le> length (concat chars)"
proof -
  have "concat chars = concat (take j chars) @ concat (drop j chars)"
    by (metis append_take_drop_id concat_append)
  then show ?thesis by (simp add: byte_offset_def)
qed

lemma buffer_slice:
  assumes "i \<le> j"
  shows "take (byte_offset chars j - byte_offset chars i) (drop (byte_offset chars i) (concat chars)) =
           concat (drop i (take j chars))"
proof -
  have "take i chars @ drop i (take j chars) @ drop j chars = chars"
    unfolding append_assoc [symmetric] take_split [OF assms, symmetric] by simp
  then have "concat chars =
      concat (take i chars) @ concat (drop i (take j chars)) @ concat (drop j chars)"
    by (metis concat_append)
  then show ?thesis
    using byte_offset_split [OF assms, of chars] by (simp add: byte_offset_def)
qed

lemma toString_length_between:
  assumes wf: "\<forall>ch \<in> set chars. utf8_char ch" and "i \<le> j" and "j \<le> length chars"
  shows "toString_length (concat chars) (int (byte_offset chars i)) (int (byte_offset chars j)) =
           char_offset chars j - char_offset chars i"
proof -
  have wf': "\<forall>ch \<in> set (drop i (take j chars)). utf8_char ch"
    using wf by (meson in_set_dropD in_set_takeD)
  have units: "char_offset chars j - char_offset chars i =
                 utf16_length_from None (concat (drop i (take j chars)))"
    using char_offset_split [OF assms(2), of chars] decode_chars [OF wf'] by simp
  show ?thesis
  proof (cases "byte_offset chars i = byte_offset chars j")
    case True
    with byte_offset_eq_index [OF wf _ _ True] assms have "i = j" by simp
    then show ?thesis using True by (simp add: toString_length_def Let_def)
  next
    case False
    with byte_offset_split [OF assms(2), of chars]
    have lt: "byte_offset chars i < byte_offset chars j" by simp
    with byte_offset_le_length [of chars j]
    have "byte_offset chars i < length (concat chars)" by simp
    with lt byte_offset_le_length [of chars j] buffer_slice [OF assms(2), of chars] show ?thesis
      unfolding units
      by (auto simp: toString_length_def Let_def)
  qed
qed

lemma nearest_of_member: "nearest_of q best ss \<in> insert best (set ss)"
  by (induction ss arbitrary: best) (auto split: if_splits)

lemma getNearest_exact:
  "exact_sample chars (fst memo) \<Longrightarrow> \<forall>s \<in> set (snd memo). exact_sample chars s \<Longrightarrow> exact_sample chars (getNearest memo q)"
  using nearest_of_member [of q "fst memo" "snd memo"] by (auto simp: getNearest_def)

lemma charOffsetFor_exact:
  assumes wf: "\<forall>ch \<in> set chars. utf8_char ch"
    and memo: "exact_sample chars (fst memo)" "\<forall>s \<in> set (snd memo). exact_sample chars s"
    and j: "j \<le> length chars"
  shows "fst (charOffsetFor (concat chars) memo (int (byte_offset chars j))) = int (char_offset chars j)"
    and "exact_sample chars (fst (snd (charOffsetFor (concat chars) memo (int (byte_offset chars j)))))"
    and "\<forall>s \<in> set (snd (snd (charOffsetFor (concat chars) memo (int (byte_offset chars j))))). exact_sample chars s"
proof -
  let ?q = "int (byte_offset chars j)"
  from getNearest_exact [OF memo] obtain i where i: "i \<le> length chars"
    "fst (getNearest memo ?q) = int (byte_offset chars i)"
    "snd (getNearest memo ?q) = int (char_offset chars i)"
    by (auto simp: exact_sample_def)
  have r: "fst (charOffsetFor (concat chars) memo ?q) = int (char_offset chars j)"
  proof (cases i j rule: linorder_cases)
    case equal
    with i show ?thesis by (simp add: charOffsetFor_def Let_def)
  next
    case less
    with byte_offset_strict [OF wf less j] i toString_length_between [OF wf _ j, of i]
      char_offset_mono [of i j chars]
    show ?thesis by (simp add: charOffsetFor_def Let_def)
  next
    case greater
    with byte_offset_strict [OF wf greater i(1)] i toString_length_between [OF wf _ i(1), of j]
      char_offset_mono [of j i chars]
    show ?thesis by (simp add: charOffsetFor_def Let_def)
  qed
  then show "fst (charOffsetFor (concat chars) memo ?q) = int (char_offset chars j)" .
  have g: "exact_sample chars (?q, int (char_offset chars j))"
    using j by (auto simp: exact_sample_def)
  have m: "snd (charOffsetFor (concat chars) memo ?q) = memo \<or>
           snd (charOffsetFor (concat chars) memo ?q) =
             insert_sample memo ?q (fst (charOffsetFor (concat chars) memo ?q))"
    by (simp add: charOffsetFor_def Let_def)
  with memo g r show "exact_sample chars (fst (snd (charOffsetFor (concat chars) memo ?q)))"
    by (auto simp: insert_sample_def)
  from m memo g r show "\<forall>s \<in> set (snd (snd (charOffsetFor (concat chars) memo ?q))). exact_sample chars s"
    by (auto simp: insert_sample_def)
qed

lemma boundary_index: "boundary chars q \<longleftrightarrow> (\<exists>j \<le> length chars. q = int (byte_offset chars j))"
proof -
  have "set [0 ..< length chars + 1] = {j. j \<le> length chars}" by auto
  then show ?thesis
    unfolding boundary_def byte_offset_def set_map by auto
qed

lemma queries_values:
  assumes wf: "\<forall>ch \<in> set chars. utf8_char ch"
  shows "exact_sample chars (fst memo) \<Longrightarrow> \<forall>s \<in> set (snd memo). exact_sample chars s \<Longrightarrow>
         \<forall>q \<in> set qs. boundary chars q \<Longrightarrow>
         list_all2 (\<lambda>q r. \<exists>j \<le> length chars. q = int (byte_offset chars j) \<and> r = int (char_offset chars j))
           qs (queries (concat chars) memo qs)"
proof (induction qs arbitrary: memo)
  case Nil
  then show ?case by simp
next
  case (Cons q qs)
  from Cons.prems(3) obtain j where j: "j \<le> length chars" "q = int (byte_offset chars j)"
    by (auto simp: boundary_index)
  note step = charOffsetFor_exact [OF wf Cons.prems(1,2) j(1)]
  obtain r memo' where c: "charOffsetFor (concat chars) memo q = (r, memo')"
    by (cases "charOffsetFor (concat chars) memo q")
  with step j have r: "r = int (char_offset chars j)"
    and g: "exact_sample chars (fst memo')" "\<forall>s \<in> set (snd memo'). exact_sample chars s"
    by simp_all
  from Cons.IH [OF g] Cons.prems(3)
  have "list_all2 (\<lambda>q r. \<exists>j \<le> length chars. q = int (byte_offset chars j) \<and> r = int (char_offset chars j))
           qs (queries (concat chars) memo' qs)" by simp
  with c r j show ?case by auto
qed

text \<open>
  C5. For a buffer that holds well-formed UTF-8 text and any sequence of queries at
  character boundaries against one converter, in any order, whenever one queried byte
  offset is less than another, the value returned for the first is at most the value
  returned for the second.
\<close>

theorem charOffsetFor_monotone:
  assumes wf: "\<forall>ch \<in> set chars. utf8_char ch"
    and bd: "\<forall>q \<in> set qs. boundary chars q"
    and ab: "a < length qs" "b < length qs"
    and lt: "qs ! a < qs ! b"
  shows "queries (concat chars) makeMemoizedByteOffsetConverter qs ! a \<le>
         queries (concat chars) makeMemoizedByteOffsetConverter qs ! b"
proof -
  let ?rs = "queries (concat chars) makeMemoizedByteOffsetConverter qs"
  have g0: "exact_sample chars (fst makeMemoizedByteOffsetConverter)"
    "\<forall>s \<in> set (snd makeMemoizedByteOffsetConverter). exact_sample chars s"
    by (auto simp: makeMemoizedByteOffsetConverter_def NearestNeighborDict_new_def exact_sample_def
        byte_offset_def char_offset_def intro: exI [of _ 0])
  from queries_values [OF wf g0 bd]
  have all: "list_all2 (\<lambda>q r. \<exists>j \<le> length chars. q = int (byte_offset chars j) \<and> r = int (char_offset chars j))
           qs ?rs" .
  from list_all2_nthD [OF all ab(1)] obtain i where i: "i \<le> length chars"
    "qs ! a = int (byte_offset chars i)" "?rs ! a = int (char_offset chars i)" by auto
  from list_all2_nthD [OF all ab(2)] obtain j where j: "j \<le> length chars"
    "qs ! b = int (byte_offset chars j)" "?rs ! b = int (char_offset chars j)" by auto
  from lt i j have "byte_offset chars i < byte_offset chars j" by simp
  from byte_offset_less_index [OF wf i(1) j(1) this] have "i \<le> j" by simp
  from char_offset_mono [OF this, of chars] i j show ?thesis by simp
qed

theorem charOffsetFor_monotone_witness:
  "list_all utf8_char [[0x61], [0xC3, 0xA9], [0xE2, 0x82, 0xAC], [0xF0, 0x9F, 0x98, 0x80], [0x62 :: byte]] \<and>
   list_all (boundary [[0x61], [0xC3, 0xA9], [0xE2, 0x82, 0xAC], [0xF0, 0x9F, 0x98, 0x80], [0x62]])
     [11, 3, 6, 0, 10, 1, 3] \<and>
   [11, 3, 6, 0, 10, 1, 3] ! 1 < [11, 3, 6, 0, 10, 1, 3 :: int] ! 0 \<and>
   queries (concat [[0x61], [0xC3, 0xA9], [0xE2, 0x82, 0xAC], [0xF0, 0x9F, 0x98, 0x80], [0x62]])
      makeMemoizedByteOffsetConverter [11, 3, 6, 0, 10, 1, 3] ! 1 \<le>
   queries (concat [[0x61], [0xC3, 0xA9], [0xE2, 0x82, 0xAC], [0xF0, 0x9F, 0x98, 0x80], [0x62]])
      makeMemoizedByteOffsetConverter [11, 3, 6, 0, 10, 1, 3] ! 0"
proof -
  let ?chars = "[[0x61], [0xC3, 0xA9], [0xE2, 0x82, 0xAC], [0xF0, 0x9F, 0x98, 0x80], [0x62 :: byte]]"
  let ?qs = "[11, 3, 6, 0, 10, 1, 3 :: int]"
  have wf: "\<forall>ch \<in> set ?chars. utf8_char ch" by code_simp
  have bd: "\<forall>q \<in> set ?qs. boundary ?chars q" by code_simp
  have ab: "1 < length ?qs" "0 < length ?qs" by simp_all
  have lt: "?qs ! 1 < ?qs ! 0" by simp
  from charOffsetFor_monotone [OF wf bd ab lt] wf bd lt show ?thesis
    unfolding list_all_iff by blast
qed

end
